theory Spec2Isabelle
  imports Complex_Main "HOL-Library.Word"
begin

section \<open>Exceptions as values\<close>

text \<open>
  Every Python exception the modelled code can meet is a value of \<open>error\<close>; a
  method that may raise returns \<open>error + 'a\<close> with \<open>Inl\<close> for the exception.
  \<open>BuilderError\<close> stands for whatever the interpolator builder (\<open>helper.plan\<close>,
  not part of the sources) raises. \<open>Unmodelled\<close> marks the one library path that is
  left out: scipy's product of a sparse matrix with a 0-dimensional array, which yields
  a sparse matrix instead of an array.
\<close>

datatype error =
    AttributeError
  | KeyError
  | IndexError
  | ValueError
  | TypeError
  | BuilderError string
  | Unmodelled

definition attr :: "'a option \<Rightarrow> error + 'a" where
  "attr a = (case a of None \<Rightarrow> Inl AttributeError | Some v \<Rightarrow> Inr v)"

definition item :: "'a option \<Rightarrow> error + 'a" where
  "item a = (case a of None \<Rightarrow> Inl KeyError | Some v \<Rightarrow> Inr v)"

definition ebind :: "error + 'a \<Rightarrow> ('a \<Rightarrow> error + 'b) \<Rightarrow> error + 'b" where
  "ebind m f = (case m of Inl e \<Rightarrow> Inl e | Inr v \<Rightarrow> f v)"

section \<open>numpy arrays\<close>

text \<open>
  The element types that can reach the operator, with numpy's promotion of two array
  operands (\<open>numpy.result_type\<close>).
\<close>

datatype dtype = Float32 | Float64 | Complex64 | Complex128

fun result_type :: "dtype \<Rightarrow> dtype \<Rightarrow> dtype" where
  "result_type Float32 d = d"
| "result_type d Float32 = d"
| "result_type Float64 Float64 = Float64"
| "result_type Complex64 Complex64 = Complex64"
| "result_type _ _ = Complex128"

text \<open>
  An array is its shape, its element type and its elements in C order, which is what
  \<open>a.ravel()\<close> returns. Element values are exact complex numbers: rounding is not
  modelled.
\<close>

record ndarray =
  shape :: "nat list"
  adtype :: dtype
  ravel :: "complex list"

definition np_zeros :: "nat list \<Rightarrow> dtype \<Rightarrow> ndarray" where
  "np_zeros s d = \<lparr>shape = s, adtype = d, ravel = replicate (prod_list s) 0\<rparr>"

definition np_ones :: "nat list \<Rightarrow> dtype \<Rightarrow> ndarray" where
  "np_ones s d = \<lparr>shape = s, adtype = d, ravel = replicate (prod_list s) 1\<rparr>"

text \<open>\<open>numpy.reshape(a, s, order='C')\<close>: the same elements under a new shape of the same size.\<close>

definition np_reshape :: "ndarray \<Rightarrow> nat list \<Rightarrow> error + ndarray" where
  "np_reshape a s =
     (if prod_list s = length (ravel a) then Inr (a\<lparr>shape := s\<rparr>) else Inl ValueError)"

text \<open>
  \<open>numpy.prod\<close> of a tuple of sizes. For the empty tuple numpy returns the float
  \<open>1.0\<close>, which no shape accepts; that value is \<open>None\<close> here.
\<close>

definition numpy_prod :: "nat list \<Rightarrow> nat option" where
  "numpy_prod s = (if s = [] then None else Some (prod_list s))"

subsection \<open>Broadcasting\<close>

text \<open>
  Shapes are aligned at their last axis; two sizes are compatible when they are equal
  or one of them is 1. Both functions below work on reversed shapes.
\<close>

fun bcast_rev :: "nat list \<Rightarrow> nat list \<Rightarrow> nat list option" where
  "bcast_rev [] ys = Some ys"
| "bcast_rev xs [] = Some xs"
| "bcast_rev (x # xs) (y # ys) =
     (if x = y \<or> y = 1 then map_option ((#) x) (bcast_rev xs ys)
      else if x = 1 then map_option ((#) y) (bcast_rev xs ys)
      else None)"

definition broadcast_shapes :: "nat list \<Rightarrow> nat list \<Rightarrow> nat list option" where
  "broadcast_shapes s t = map_option rev (bcast_rev (rev s) (rev t))"

text \<open>
  The flat index into an operand of (reversed) shape \<open>ds\<close> that the flat index \<open>i\<close> of
  the (reversed) result shape \<open>rs\<close> reads: along an axis of size 1 the operand's only
  element is repeated.
\<close>

fun bcast_index_rev :: "nat list \<Rightarrow> nat list \<Rightarrow> nat \<Rightarrow> nat" where
  "bcast_index_rev (d # ds) (r # rs) i =
     (if d = 1 then 0 else i mod r) + d * bcast_index_rev ds rs (i div r)"
| "bcast_index_rev _ _ i = 0"

definition bcast_index :: "nat list \<Rightarrow> nat list \<Rightarrow> nat \<Rightarrow> nat" where
  "bcast_index s rs i = bcast_index_rev (rev s) (rev rs) i"

text \<open>\<open>a * b\<close> on arrays.\<close>

definition np_mul :: "ndarray \<Rightarrow> ndarray \<Rightarrow> error + ndarray" where
  "np_mul a b =
     (case broadcast_shapes (shape a) (shape b) of
        None \<Rightarrow> Inl ValueError
      | Some rs \<Rightarrow>
          Inr \<lparr>shape = rs, adtype = result_type (adtype a) (adtype b),
               ravel = map (\<lambda>i. ravel a ! bcast_index (shape a) rs i *
                                 ravel b ! bcast_index (shape b) rs i)
                           [0..<prod_list rs]\<rparr>)"

subsection \<open>Index arrays\<close>

text \<open>
  \<open>v[idx]\<close> with an integer index array reads the listed positions and raises
  \<open>IndexError\<close> when one is out of range.
\<close>

definition take_idx :: "complex list \<Rightarrow> nat list \<Rightarrow> error + complex list" where
  "take_idx v idx =
     (if \<forall>i \<in> set idx. i < length v then Inr (map ((!) v) idx) else Inl IndexError)"

text \<open>
  \<open>buf[idx] = vals\<close> writes the values in order, so the last write to a position
  wins. The values are first broadcast to the index array (same length, or a single
  value repeated), then the indices are checked.
\<close>

definition put_idx :: "complex list \<Rightarrow> nat list \<Rightarrow> complex list \<Rightarrow> error + complex list" where
  "put_idx buf idx vals =
     (if length vals \<noteq> length idx \<and> length vals \<noteq> 1 then Inl ValueError
      else if \<not> (\<forall>i \<in> set idx. i < length buf) then Inl IndexError
      else Inr (fold (\<lambda>(i, v) b. b[i := v])
                  (zip idx (if length vals = length idx then vals
                            else replicate (length idx) (hd vals)))
                  buf))"

subsection \<open>Discrete Fourier transforms\<close>

text \<open>
  \<open>numpy.fft\<close> computes \<open>A[k] = \<Sum>j. a[j] * exp(-2\<pi>i jk/n)\<close> and, for the inverse,
  \<open>a[j] = (1/n) \<Sum>k. A[k] * exp(+2\<pi>i jk/n)\<close>. \<open>omega sg n j\<close> is
  \<open>exp(sg * 2\<pi>i j/n)\<close>.
\<close>

definition omega :: "real \<Rightarrow> nat \<Rightarrow> nat \<Rightarrow> complex" where
  "omega sg n j = cis (sg * 2 * pi * real j / real n)"

text \<open>
  The unnormalised transform along the leading axis of an array of \<open>n\<close> rows of
  \<open>m\<close> elements each, and along axis \<open>ax\<close> of an array of a given shape: an inner
  axis is the same transform inside each block of the leading axis.
\<close>

definition dft_lead :: "real \<Rightarrow> nat \<Rightarrow> nat \<Rightarrow> complex list \<Rightarrow> complex list" where
  "dft_lead sg n m v =
     concat (map (\<lambda>k. map (\<lambda>r. \<Sum>j\<leftarrow>[0..<n]. omega sg n (k * j) * v ! (j * m + r)) [0..<m])
                 [0..<n])"

fun dft_axis :: "real \<Rightarrow> nat list \<Rightarrow> nat \<Rightarrow> complex list \<Rightarrow> complex list" where
  "dft_axis sg [] ax v = v"
| "dft_axis sg (d # ds) 0 v = dft_lead sg d (prod_list ds) v"
| "dft_axis sg (d # ds) (Suc ax) v =
     concat (map (\<lambda>i. dft_axis sg ds ax (take (prod_list ds) (drop (i * prod_list ds) v)))
                 [0..<d])"

definition fft_axis :: "nat list \<Rightarrow> nat \<Rightarrow> complex list \<Rightarrow> complex list" where
  "fft_axis s ax v = dft_axis (- 1) s ax v"

definition ifft_axis :: "nat list \<Rightarrow> nat \<Rightarrow> complex list \<Rightarrow> complex list" where
  "ifft_axis s ax v = map (\<lambda>z. z / of_nat (s ! ax)) (dft_axis 1 s ax v)"

text \<open>
  \<open>numpy.fft.fftn(a, axes=axes)\<close> and \<open>numpy.fft.ifftn(a, axes=axes)\<close> transform the
  listed axes one after the other, the last listed first. An axis the array does not
  have raises \<open>IndexError\<close>, an axis of size 0 raises \<open>ValueError\<close>. The element type
  of the result is the library's choice (double precision complex before NumPy 2.0, the
  precision of the input since); it is the parameter \<open>fd\<close> applied to the input's type.
\<close>

definition fftn :: "(dtype \<Rightarrow> dtype) \<Rightarrow> ndarray \<Rightarrow> nat list \<Rightarrow> error + ndarray" where
  "fftn fd a axes =
     (if \<not> (\<forall>ax \<in> set axes. ax < length (shape a)) then Inl IndexError
      else if \<exists>ax \<in> set axes. shape a ! ax = 0 then Inl ValueError
      else Inr \<lparr>shape = shape a, adtype = fd (adtype a),
                ravel = foldr (fft_axis (shape a)) axes (ravel a)\<rparr>)"

definition ifftn :: "(dtype \<Rightarrow> dtype) \<Rightarrow> ndarray \<Rightarrow> nat list \<Rightarrow> error + ndarray" where
  "ifftn fd a axes =
     (if \<not> (\<forall>ax \<in> set axes. ax < length (shape a)) then Inl IndexError
      else if \<exists>ax \<in> set axes. shape a ! ax = 0 then Inl ValueError
      else Inr \<lparr>shape = shape a, adtype = fd (adtype a),
                ravel = foldr (ifft_axis (shape a)) axes (ravel a)\<rparr>)"

section \<open>scipy sparse matrices\<close>

text \<open>
  A sparse matrix is its dimensions, its element type and its stored entries
  \<open>(row, column, value)\<close>; entries at the same position add up, as they do in a
  product. The storage order (CSR, CSC) does not change any value computed here.
\<close>

record csr_matrix =
  nrows :: nat
  ncols :: nat
  sdtype :: dtype
  entries :: "(nat \<times> nat \<times> complex) list"

text \<open>
  The product of a sparse matrix with \<open>b\<close> dense columns stored in C order (element
  \<open>(c, j)\<close> at \<open>c * b + j\<close>).
\<close>

definition spmm :: "csr_matrix \<Rightarrow> nat \<Rightarrow> complex list \<Rightarrow> complex list" where
  "spmm A b v =
     concat (map (\<lambda>m. map (\<lambda>j. \<Sum>(r, c, a)\<leftarrow>filter (\<lambda>(r, c, a). r = m) (entries A).
                                   a * v ! (c * b + j)) [0..<b])
                 [0..<nrows A])"

text \<open>
  \<open>A.dot(v)\<close> for a dense \<open>v\<close>: a vector gives a vector, a two-dimensional array gives
  a two-dimensional array, a mismatch of the inner dimension or more than two axes
  raises \<open>ValueError\<close>.
\<close>

definition sp_dot :: "csr_matrix \<Rightarrow> ndarray \<Rightarrow> error + ndarray" where
  "sp_dot A v =
     (case shape v of
        [] \<Rightarrow> Inl Unmodelled
      | [n] \<Rightarrow>
          if n \<noteq> ncols A then Inl ValueError
          else Inr \<lparr>shape = [nrows A], adtype = result_type (sdtype A) (adtype v),
                    ravel = spmm A 1 (ravel v)\<rparr>
      | [n, b] \<Rightarrow>
          if n \<noteq> ncols A then Inl ValueError
          else Inr \<lparr>shape = [nrows A, b], adtype = result_type (sdtype A) (adtype v),
                    ravel = spmm A b (ravel v)\<rparr>
      | _ \<Rightarrow> Inl ValueError)"

text \<open>\<open>A.getH()\<close>: the conjugate transpose.\<close>

definition getH :: "csr_matrix \<Rightarrow> csr_matrix" where
  "getH A = \<lparr>nrows = ncols A, ncols = nrows A, sdtype = sdtype A,
             entries = map (\<lambda>(r, c, a). (c, r, cnj a)) (entries A)\<rparr>"

text \<open>\<open>A.dot(B)\<close> for a sparse \<open>B\<close>: the matrix product.\<close>

definition sp_matmul :: "csr_matrix \<Rightarrow> csr_matrix \<Rightarrow> error + csr_matrix" where
  "sp_matmul A B =
     (if ncols A \<noteq> nrows B then Inl ValueError
      else Inr \<lparr>nrows = nrows A, ncols = ncols B,
                sdtype = result_type (sdtype A) (sdtype B),
                entries = concat (map (\<lambda>(r, c, a).
                             map (\<lambda>(r', c', a'). (r, c', a * a'))
                                 (filter (\<lambda>(r', c', a'). r' = c) (entries B)))
                           (entries A))\<rparr>)"

section \<open>The operator \<open>NUFFT_cpu\<close> (linalg/nufft\_cpu.py)\<close>

text \<open>
  The dictionary \<open>st\<close> that the interpolator builder returns. The keys \<open>'p'\<close> and
  \<open>'sn'\<close> are deleted at the end of \<open>plan\<close>, so they are optional here; reading a
  missing key raises \<open>KeyError\<close>.
\<close>

record st_dict =
  st_Nd :: "nat list"
  st_Kd :: "nat list"
  st_Jd :: "nat list"
  st_M :: nat
  st_p :: "csr_matrix option"
  st_sn :: "ndarray option"

text \<open>
  The object. \<open>__init__\<close> sets \<open>dtype\<close> and \<open>debug\<close>; every other attribute exists
  only once a method has assigned it, and reading it before raises
  \<open>AttributeError\<close>. Sizes, axes and \<open>batch\<close> are natural numbers: negative values
  are outside the model.
\<close>

record NUFFT_cpu =
  dtype :: dtype
  debug :: nat
  ndims :: "nat option"
  ft_axes :: "nat list option"
  st :: "st_dict option"
  Nd :: "nat list option"
  Kd :: "nat list option"
  sn :: "ndarray option"
  parallel_flag :: "nat option"
  batch :: "nat option"
  multi_Nd :: "nat list option"
  multi_Kd :: "nat list option"
  multi_M :: "nat list option"
  multi_prodKd :: "nat option list option"
  sp :: "csr_matrix option"
  spH :: "csr_matrix option"
  Kdprod :: "32 word option"
  Jdprod :: "32 word option"
  NdCPUorder :: "nat list option"
  KdCPUorder :: "nat list option"
  nelem :: "nat option"
  W :: "ndarray option"

definition NUFFT_cpu_init :: NUFFT_cpu where
  "NUFFT_cpu_init =
     \<lparr>dtype = Complex64, debug = 0, ndims = None, ft_axes = None, st = None, Nd = None,
      Kd = None, sn = None, parallel_flag = None, batch = None, multi_Nd = None,
      multi_Kd = None, multi_M = None, multi_prodKd = None, sp = None, spH = None,
      Kdprod = None, Jdprod = None, NdCPUorder = None, KdCPUorder = None, nelem = None,
      W = None\<rparr>"

subsection \<open>\<open>plan\<close>\<close>

text \<open>
  The module \<open>helper\<close> is not among the sources; \<open>plan\<close> takes its two functions as
  a parameter. \<open>helper_plan\<close> is the interpolator builder (called with \<open>om\<close>,
  \<open>Nd\<close>, \<open>Kd\<close>, \<open>Jd\<close> and the axes), \<open>helper_preindex_copy\<close> builds the reorder
  tables from \<open>st['Nd']\<close> and \<open>st['Kd']\<close>.
\<close>

record helper_module =
  helper_plan :: "real list list \<Rightarrow> nat list \<Rightarrow> nat list \<Rightarrow> nat list \<Rightarrow> nat list
                    \<Rightarrow> error + st_dict"
  helper_preindex_copy :: "nat list \<Rightarrow> nat list \<Rightarrow> error + (nat list \<times> nat list \<times> nat)"

text \<open>
  Lines 99 to 124: the batch attributes. In batch mode the last statement reshapes
  \<open>sn\<close> and may raise after the \<open>multi_\<close> attributes are assigned.
\<close>

definition plan_batch :: "NUFFT_cpu \<Rightarrow> st_dict \<Rightarrow> ndarray \<Rightarrow> nat option \<Rightarrow> (error + unit) \<times> NUFFT_cpu" where
  "plan_batch self d s batch0 =
     (case batch0 of
        None \<Rightarrow>
          (Inr (),
           self\<lparr>parallel_flag := Some 0, batch := Some 1,
                multi_Nd := Some (st_Nd d), multi_Kd := Some (st_Kd d),
                multi_M := Some [st_M d], multi_prodKd := Some [numpy_prod (st_Kd d)]\<rparr>)
      | Some b \<Rightarrow>
          (let self1 = self\<lparr>parallel_flag := Some 1, batch := Some b,
                 multi_Nd := Some (st_Nd d @ [b]), multi_Kd := Some (st_Kd d @ [b]),
                 multi_M := Some ([st_M d] @ [b]),
                 multi_prodKd := Some [numpy_prod (st_Kd d), Some b]\<rparr>
           in case np_reshape s (st_Nd d @ [1]) of
                Inl e \<Rightarrow> (Inl e, self1)
              | Inr s' \<Rightarrow> (Inr (), self1\<lparr>sn := Some s'\<rparr>)))"

text \<open>
  Lines 127 to 134: the matrices, the two 32-bit products (\<open>numpy.int32\<close> of a 64-bit
  product keeps the low 32 bits) and the reorder tables.
\<close>

definition plan_matrices :: "helper_module \<Rightarrow> NUFFT_cpu \<Rightarrow> st_dict \<Rightarrow> (error + nat) \<times> NUFFT_cpu" where
  "plan_matrices helper self d =
     (case st_p d of
        None \<Rightarrow> (Inl KeyError, self)
      | Some p \<Rightarrow>
          (let self1 = self\<lparr>sp := Some p, spH := Some (getH p),
                 Kdprod := Some (word_of_nat (prod_list (st_Kd d))),
                 Jdprod := Some (word_of_nat (prod_list (st_Jd d))),
                 st := Some (d\<lparr>st_p := None, st_sn := None\<rparr>)\<rparr>
           in case helper_preindex_copy helper (st_Nd d) (st_Kd d) of
                Inl e \<Rightarrow> (Inl e, self1)
              | Inr (n_order, k_order, n) \<Rightarrow>
                  (Inr 0, self1\<lparr>NdCPUorder := Some n_order, KdCPUorder := Some k_order,
                                nelem := Some n\<rparr>)))"

text \<open>Lines 85 and 86: the axes to transform, all of them when \<open>ft_axes\<close> is \<open>None\<close>.\<close>

definition plan_axes :: "nat list \<Rightarrow> nat list option \<Rightarrow> nat list" where
  "plan_axes Nd0 ft_axes0 = (case ft_axes0 of None \<Rightarrow> [0..<length Nd0] | Some a \<Rightarrow> a)"

text \<open>
  \<open>plan(om, Nd, Kd, Jd, ft_axes, batch)\<close>. The result is the returned status or the
  exception, together with the object as the call leaves it.
\<close>

definition plan :: "helper_module \<Rightarrow> NUFFT_cpu \<Rightarrow> real list list \<Rightarrow> nat list \<Rightarrow> nat list \<Rightarrow> nat list
                     \<Rightarrow> nat list option \<Rightarrow> nat option \<Rightarrow> (error + nat) \<times> NUFFT_cpu" where
  "plan helper self om Nd0 Kd0 Jd0 ft_axes0 batch0 =
     (let axes = plan_axes Nd0 ft_axes0;
          self1 = self\<lparr>ndims := Some (length Nd0), ft_axes := Some axes\<rparr>
      in case helper_plan helper om Nd0 Kd0 Jd0 axes of
           Inl e \<Rightarrow> (Inl e, self1)
         | Inr d \<Rightarrow>
             (let self2 = self1\<lparr>st := Some d, Nd := Some (st_Nd d), Kd := Some (st_Kd d)\<rparr>
              in case st_sn d of
                   None \<Rightarrow> (Inl KeyError, self2)
                 | Some s \<Rightarrow>
                     (let s1 = s\<lparr>adtype := dtype self\<rparr>
                      in case plan_batch (self2\<lparr>sn := Some s1\<rparr>) d s1 batch0 of
                           (Inl e, self3) \<Rightarrow> (Inl e, self3)
                         | (Inr _, self3) \<Rightarrow> plan_matrices helper self3 d)))"

subsection \<open>The stages\<close>

definition x2xx :: "NUFFT_cpu \<Rightarrow> ndarray \<Rightarrow> error + ndarray" where
  "x2xx self x = ebind (attr (sn self)) (\<lambda>s. np_mul x s)"

text \<open>
  The loop of \<open>xx2k\<close>: for every \<open>bat\<close>,
  \<open>output_x.ravel()[KdCPUorder*batch + bat] = xx.ravel()[NdCPUorder*batch + bat]\<close>.
  The right-hand side is evaluated first. The buffer \<open>output_x\<close> is allocated with
  the element type \<open>self.dtype\<close> and the assignment casts what it stores to that
  type, so the result has the element type \<open>self.dtype\<close> whatever the type of
  \<open>xx\<close>. Element values are exact complex numbers here: the stored value is the
  value read, which is what numpy stores when the value is representable in the
  buffer's type, in particular when \<open>xx\<close> has the buffer's type. The rounding of a
  narrowing cast (a \<open>complex128\<close> value into a \<open>complex64\<close> buffer) is outside
  the model, like every other rounding.
\<close>

primrec xx2k_loop :: "NUFFT_cpu \<Rightarrow> complex list \<Rightarrow> nat list \<Rightarrow> complex list \<Rightarrow> error + complex list" where
  "xx2k_loop self src [] buf = Inr buf"
| "xx2k_loop self src (bat # bats) buf =
     ebind (attr (NdCPUorder self)) (\<lambda>n_order.
     ebind (attr (batch self)) (\<lambda>b.
     ebind (take_idx src (map (\<lambda>i. i * b + bat) n_order)) (\<lambda>vals.
     ebind (attr (KdCPUorder self)) (\<lambda>k_order.
     ebind (put_idx buf (map (\<lambda>i. i * b + bat) k_order) vals) (\<lambda>buf'.
     xx2k_loop self src bats buf')))))"

definition xx2k_scatter :: "NUFFT_cpu \<Rightarrow> ndarray \<Rightarrow> error + ndarray" where
  "xx2k_scatter self xx =
     ebind (attr (multi_Kd self)) (\<lambda>mk.
     (let output_x = np_zeros mk (dtype self) in
      ebind (attr (batch self)) (\<lambda>b.
      ebind (xx2k_loop self (ravel xx) [0..<b] (ravel output_x)) (\<lambda>buf.
      Inr (output_x\<lparr>ravel := buf\<rparr>)))))"

definition xx2k :: "(dtype \<Rightarrow> dtype) \<Rightarrow> NUFFT_cpu \<Rightarrow> ndarray \<Rightarrow> error + ndarray" where
  "xx2k fd self xx =
     ebind (xx2k_scatter self xx) (\<lambda>output_x.
     ebind (attr (ft_axes self)) (\<lambda>axes.
     fftn fd output_x axes))"

definition k2vec :: "NUFFT_cpu \<Rightarrow> ndarray \<Rightarrow> error + ndarray" where
  "k2vec self k =
     ebind (attr (multi_prodKd self)) (\<lambda>mp.
     (case those mp of None \<Rightarrow> Inl TypeError | Some s \<Rightarrow> np_reshape k s))"

definition vec2y :: "NUFFT_cpu \<Rightarrow> ndarray \<Rightarrow> error + ndarray" where
  "vec2y self k_vec = ebind (attr (sp self)) (\<lambda>A. sp_dot A k_vec)"

definition k2y :: "NUFFT_cpu \<Rightarrow> ndarray \<Rightarrow> error + ndarray" where
  "k2y self k = ebind (k2vec self k) (vec2y self)"

definition y2vec :: "NUFFT_cpu \<Rightarrow> ndarray \<Rightarrow> error + ndarray" where
  "y2vec self y = ebind (attr (spH self)) (\<lambda>A. sp_dot A y)"

definition vec2k :: "NUFFT_cpu \<Rightarrow> ndarray \<Rightarrow> error + ndarray" where
  "vec2k self k_vec = ebind (attr (multi_Kd self)) (\<lambda>mk. np_reshape k_vec mk)"

definition y2k :: "NUFFT_cpu \<Rightarrow> ndarray \<Rightarrow> error + ndarray" where
  "y2k self y = ebind (y2vec self y) (vec2k self)"

text \<open>
  The loop of \<open>k2xx\<close>: for every \<open>bat\<close>,
  \<open>xx.ravel()[NdCPUorder*batch + bat] = k.ravel()[KdCPUorder*batch + bat]\<close>.
  The buffer \<open>xx\<close> has the element type \<open>self.dtype\<close>; as in \<open>xx2k\<close> the
  assignment changes the element type only, and the rounding of a narrowing cast is
  outside the model.
\<close>

primrec k2xx_loop :: "NUFFT_cpu \<Rightarrow> complex list \<Rightarrow> nat list \<Rightarrow> complex list \<Rightarrow> error + complex list" where
  "k2xx_loop self src [] buf = Inr buf"
| "k2xx_loop self src (bat # bats) buf =
     ebind (attr (KdCPUorder self)) (\<lambda>k_order.
     ebind (attr (batch self)) (\<lambda>b.
     ebind (take_idx src (map (\<lambda>i. i * b + bat) k_order)) (\<lambda>vals.
     ebind (attr (NdCPUorder self)) (\<lambda>n_order.
     ebind (put_idx buf (map (\<lambda>i. i * b + bat) n_order) vals) (\<lambda>buf'.
     k2xx_loop self src bats buf')))))"

definition k2xx_gather :: "NUFFT_cpu \<Rightarrow> ndarray \<Rightarrow> error + ndarray" where
  "k2xx_gather self k =
     ebind (attr (multi_Nd self)) (\<lambda>mn.
     (let xx = np_zeros mn (dtype self) in
      ebind (attr (batch self)) (\<lambda>b.
      ebind (k2xx_loop self (ravel k) [0..<b] (ravel xx)) (\<lambda>buf.
      Inr (xx\<lparr>ravel := buf\<rparr>)))))"

definition k2xx :: "(dtype \<Rightarrow> dtype) \<Rightarrow> NUFFT_cpu \<Rightarrow> ndarray \<Rightarrow> error + ndarray" where
  "k2xx fd self k =
     ebind (attr (ft_axes self)) (\<lambda>axes.
     ebind (ifftn fd k axes) (\<lambda>k'.
     k2xx_gather self k'))"

definition xx2x :: "NUFFT_cpu \<Rightarrow> ndarray \<Rightarrow> error + ndarray" where
  "xx2x self xx = x2xx self xx"

definition k2y2k :: "NUFFT_cpu \<Rightarrow> ndarray \<Rightarrow> error + ndarray" where
  "k2y2k self k =
     ebind (k2vec self k) (\<lambda>Xk.
     ebind (ebind (vec2y self Xk) (y2vec self)) (\<lambda>k'.
     vec2k self k'))"

subsection \<open>\<open>forward\<close>, \<open>adjoint\<close>, \<open>selfadjoint\<close>\<close>

definition forward :: "(dtype \<Rightarrow> dtype) \<Rightarrow> NUFFT_cpu \<Rightarrow> ndarray \<Rightarrow> error + ndarray" where
  "forward fd self x = ebind (ebind (x2xx self x) (xx2k fd self)) (k2y self)"

definition adjoint :: "(dtype \<Rightarrow> dtype) \<Rightarrow> NUFFT_cpu \<Rightarrow> ndarray \<Rightarrow> error + ndarray" where
  "adjoint fd self y = ebind (ebind (y2k self y) (k2xx fd self)) (xx2x self)"

definition selfadjoint :: "(dtype \<Rightarrow> dtype) \<Rightarrow> NUFFT_cpu \<Rightarrow> ndarray \<Rightarrow> error + ndarray" where
  "selfadjoint fd self x =
     ebind (ebind (ebind (ebind (x2xx self x) (xx2k fd self)) (k2y2k self)) (k2xx fd self))
           (xx2x self)"

subsection \<open>The weighting \<open>W\<close> and \<open>selfadjoint2\<close>\<close>

text \<open>\<open>(W * W.conj()) ** 0.5\<close>, element by element.\<close>

definition sqrt_abs2 :: "ndarray \<Rightarrow> ndarray" where
  "sqrt_abs2 w = w\<lparr>ravel := map (\<lambda>z. csqrt (z * cnj z)) (ravel w)\<rparr>"

text \<open>
  \<open>_precompute_sp\<close> assigns \<open>self.W\<close> as its last step; the \<open>except\<close> clause prints a
  message and raises the exception again, so on failure the object is unchanged.
\<close>

definition precompute_sp :: "(dtype \<Rightarrow> dtype) \<Rightarrow> NUFFT_cpu \<Rightarrow> (error + unit) \<times> NUFFT_cpu" where
  "precompute_sp fd self =
     (case ebind (attr (st self)) (\<lambda>d.
             ebind (adjoint fd self (np_ones [st_M d] Complex64)) (xx2k fd self)) of
        Inl e \<Rightarrow> (Inl e, self)
      | Inr w \<Rightarrow> (Inr (), self\<lparr>W := Some (sqrt_abs2 w)\<rparr>))"

text \<open>The expression \<open>self.k2xx(self.W * self.xx2k(x))\<close>; \<open>self.W\<close> is read first.\<close>

definition selfadjoint2_try :: "(dtype \<Rightarrow> dtype) \<Rightarrow> NUFFT_cpu \<Rightarrow> ndarray \<Rightarrow> error + ndarray" where
  "selfadjoint2_try fd self x =
     ebind (attr (W self)) (\<lambda>w.
     ebind (xx2k fd self x) (\<lambda>k.
     ebind (np_mul w k) (k2xx fd self)))"

text \<open>
  \<open>selfadjoint2\<close>: the expression is tried; the bare \<open>except\<close> clause catches any
  exception, runs \<open>_precompute_sp\<close> and evaluates the expression once more.
\<close>

definition selfadjoint2 :: "(dtype \<Rightarrow> dtype) \<Rightarrow> NUFFT_cpu \<Rightarrow> ndarray \<Rightarrow> (error + ndarray) \<times> NUFFT_cpu" where
  "selfadjoint2 fd self x =
     (case selfadjoint2_try fd self x of
        Inr x2 \<Rightarrow> (Inr x2, self)
      | Inl _ \<Rightarrow>
          (case precompute_sp fd self of
             (Inl e, self') \<Rightarrow> (Inl e, self')
           | (Inr _, self') \<Rightarrow> (selfadjoint2_try fd self' x, self')))"

section \<open>The class \<open>NUFFT\<close> (src/\_transform/transform\_cpu.py): interpolation and gridding\<close>

text \<open>
  The second implementation has no batch axis, and its \<open>k2y2k\<close> multiplies by the
  precomputed matrix \<open>spHsp\<close>. Its attributes carry the prefix \<open>t_\<close> here.
\<close>

record NUFFT =
  t_st :: "st_dict option"
  t_Kd :: "nat list option"
  t_sp :: "csr_matrix option"
  t_spH :: "csr_matrix option"
  t_spHsp :: "csr_matrix option"

text \<open>
  \<open>_precompute_sp\<close>: three assignments inside \<open>try\<close>; the \<open>except\<close> clause prints and
  raises again, so the assignments made before a failure stay.
\<close>

definition NUFFT_precompute_sp :: "NUFFT \<Rightarrow> (error + unit) \<times> NUFFT" where
  "NUFFT_precompute_sp self =
     (case ebind (attr (t_st self)) (\<lambda>d. item (st_p d)) of
        Inl e \<Rightarrow> (Inl e, self)
      | Inr p \<Rightarrow>
          (let self1 = self\<lparr>t_sp := Some p, t_spH := Some (getH p)\<rparr>
           in case sp_matmul (getH p) p of
                Inl e \<Rightarrow> (Inl e, self1)
              | Inr pHp \<Rightarrow> (Inr (), self1\<lparr>t_spHsp := Some pHp\<rparr>)))"

definition NUFFT_k2vec :: "NUFFT \<Rightarrow> ndarray \<Rightarrow> error + ndarray" where
  "NUFFT_k2vec self k =
     ebind (attr (t_Kd self)) (\<lambda>kd.
     (case numpy_prod kd of None \<Rightarrow> Inl TypeError | Some n \<Rightarrow> np_reshape k [n]))"

definition NUFFT_vec2y :: "NUFFT \<Rightarrow> ndarray \<Rightarrow> error + ndarray" where
  "NUFFT_vec2y self k_vec = ebind (attr (t_sp self)) (\<lambda>A. sp_dot A k_vec)"

definition NUFFT_k2y :: "NUFFT \<Rightarrow> ndarray \<Rightarrow> error + ndarray" where
  "NUFFT_k2y self k = ebind (NUFFT_k2vec self k) (NUFFT_vec2y self)"

definition NUFFT_y2vec :: "NUFFT \<Rightarrow> ndarray \<Rightarrow> error + ndarray" where
  "NUFFT_y2vec self y = ebind (attr (t_spH self)) (\<lambda>A. sp_dot A y)"

definition NUFFT_vec2k :: "NUFFT \<Rightarrow> ndarray \<Rightarrow> error + ndarray" where
  "NUFFT_vec2k self k_vec = ebind (attr (t_Kd self)) (\<lambda>kd. np_reshape k_vec kd)"

definition NUFFT_y2k :: "NUFFT \<Rightarrow> ndarray \<Rightarrow> error + ndarray" where
  "NUFFT_y2k self y = ebind (NUFFT_y2vec self y) (NUFFT_vec2k self)"

definition NUFFT_k2y2k :: "NUFFT \<Rightarrow> ndarray \<Rightarrow> error + ndarray" where
  "NUFFT_k2y2k self k =
     ebind (NUFFT_k2vec self k) (\<lambda>Xk.
     ebind (ebind (attr (t_spHsp self)) (\<lambda>A. sp_dot A Xk)) (\<lambda>k'.
     NUFFT_vec2k self k'))"

section \<open>Reorder tables\<close>

text \<open>
  Modelled from the spec: \<open>helper.preindex_copy\<close> is not among the sources. The spec
  (section 3, ReorderTables) gives its result as two index sequences of equal length,
  \<open>NdOrder\<close> and \<open>KdOrder\<close>, such that position \<open>NdOrder[i]\<close> of a flattened
  \<open>Nd\<close>-shaped buffer corresponds to position \<open>KdOrder[i]\<close> of a flattened
  \<open>Kd\<close>-shaped buffer (centered zero-padding), and their length as the number of
  elements copied. \<open>block_index c f\<close> lists, in C order, the flat positions in a buffer
  of shape \<open>f\<close> of the centred block of shape \<open>c\<close>.
\<close>

fun block_index :: "nat list \<Rightarrow> nat list \<Rightarrow> nat list" where
  "block_index (c # cs) (f # fs) =
     concat (map (\<lambda>i. map (\<lambda>r. (i + (f - c) div 2) * prod_list fs + r) (block_index cs fs))
                 [0..<c])"
| "block_index _ _ = [0]"

definition preindex_copy :: "nat list \<Rightarrow> nat list \<Rightarrow> nat list \<times> nat list \<times> nat" where
  "preindex_copy N K =
     (let c = map2 min N K in (block_index c N, block_index c K, prod_list c))"

section \<open>Planned operators\<close>

text \<open>
  \<open>matrix_ok A\<close>: every stored entry lies inside the matrix, as scipy guarantees for
  the matrices it builds.
\<close>

definition matrix_ok :: "csr_matrix \<Rightarrow> bool" where
  "matrix_ok A = (\<forall>(r, c, a) \<in> set (entries A). r < nrows A \<and> c < ncols A)"

text \<open>
  \<open>planned self N K M t\<close>: the attributes are those \<open>plan\<close> assigns for a builder
  result with image grid \<open>N\<close>, oversampled grid \<open>K\<close> and \<open>M\<close> samples, conforming to
  the builder's interface (\<open>sn\<close> of shape \<open>N\<close>, \<open>p\<close> of shape \<open>M \<times> prod K\<close>). \<open>t\<close>
  is the trailing batch axis: \<open>[]\<close> without \<open>batch\<close>, \<open>[b]\<close> with \<open>batch = b\<close>. The
  transformed axes exist and are not empty, and the reorder tables have the same
  length and stay inside the two buffers.
\<close>

definition planned :: "NUFFT_cpu \<Rightarrow> nat list \<Rightarrow> nat list \<Rightarrow> nat \<Rightarrow> nat list \<Rightarrow> bool" where
  "planned self N K M t =
     (length t \<le> 1 \<and> length N = length K \<and> K \<noteq> [] \<and>
      batch self = Some (prod_list t) \<and>
      multi_Nd self = Some (N @ t) \<and>
      multi_Kd self = Some (K @ t) \<and>
      multi_M self = Some (M # t) \<and>
      multi_prodKd self = Some (map Some (prod_list K # t)) \<and>
      (case sn self of None \<Rightarrow> False
       | Some s \<Rightarrow> shape s = N @ map (\<lambda>_. 1) t \<and> adtype s = dtype self \<and>
                   length (ravel s) = prod_list N) \<and>
      (case sp self of None \<Rightarrow> False
       | Some p \<Rightarrow> spH self = Some (getH p) \<and> nrows p = M \<and> ncols p = prod_list K \<and>
                   matrix_ok p) \<and>
      (case ft_axes self of None \<Rightarrow> False
       | Some axes \<Rightarrow> \<forall>ax \<in> set axes. ax < length K \<and> K ! ax \<noteq> 0) \<and>
      (case NdCPUorder self of None \<Rightarrow> False
       | Some n_order \<Rightarrow>
           (case KdCPUorder self of None \<Rightarrow> False
            | Some k_order \<Rightarrow>
                length n_order = length k_order \<and>
                (\<forall>i \<in> set n_order. i < prod_list N) \<and>
                (\<forall>i \<in> set k_order. i < prod_list K))) \<and>
      (case st self of None \<Rightarrow> False | Some d \<Rightarrow> st_M d = M))"

text \<open>
  \<open>conforming d\<close>: the builder result \<open>d\<close> has the shapes of the builder's
  interface: \<open>sn\<close> of shape \<open>Nd\<close>, \<open>p\<close> of shape \<open>M \<times> prod(Kd)\<close>, and as
  many axes in \<open>Kd\<close> as in \<open>Nd\<close>. \<open>tables_ok N K tabs\<close>: the reorder tables
  have the same length and stay inside the two buffers.
\<close>

definition conforming :: "st_dict \<Rightarrow> bool" where
  "conforming d =
     (length (st_Nd d) = length (st_Kd d) \<and> st_Kd d \<noteq> [] \<and>
      (case st_sn d of None \<Rightarrow> False
       | Some s \<Rightarrow> shape s = st_Nd d \<and> length (ravel s) = prod_list (st_Nd d)) \<and>
      (case st_p d of None \<Rightarrow> False
       | Some p \<Rightarrow> nrows p = st_M d \<and> ncols p = prod_list (st_Kd d) \<and> matrix_ok p))"

definition tables_ok :: "nat list \<Rightarrow> nat list \<Rightarrow> nat list \<times> nat list \<times> nat \<Rightarrow> bool" where
  "tables_ok N K tabs =
     (case tabs of (n_order, k_order, n) \<Rightarrow>
        length n_order = length k_order \<and>
        (\<forall>i \<in> set n_order. i < prod_list N) \<and>
        (\<forall>i \<in> set k_order. i < prod_list K))"

text \<open>The complex inner product \<open>\<Sum>i. u[i] * conj(v[i])\<close> of two flattened arrays.\<close>

definition cinner :: "complex list \<Rightarrow> complex list \<Rightarrow> complex" where
  "cinner u v = (\<Sum>(a, b)\<leftarrow>zip u v. a * cnj b)"

text \<open>The complex element types.\<close>

definition is_complex :: "dtype \<Rightarrow> bool" where
  "is_complex d = (d = Complex64 \<or> d = Complex128)"

section \<open>The stages as functions on the flattened data\<close>

text \<open>
  The functions below are what the stages compute on the elements in C order when no
  exception is raised; the section on the stages of a planned operator proves it.
  \<open>scale_data\<close> is the product with \<open>sn\<close> broadcast over a batch axis of size \<open>b\<close>.
  \<open>index_pairs dst src b bats\<close> lists the pairs (position written, position read) of
  the copy loop, and \<open>copy_pairs\<close> performs the writes in order.
\<close>

definition scale_data :: "nat \<Rightarrow> complex list \<Rightarrow> complex list \<Rightarrow> complex list" where
  "scale_data b s v = map (\<lambda>i. v ! i * s ! (i div b)) [0..<length v]"

definition index_pairs :: "nat list \<Rightarrow> nat list \<Rightarrow> nat \<Rightarrow> nat list \<Rightarrow> (nat \<times> nat) list" where
  "index_pairs dst src b bats =
     concat (map (\<lambda>bat. zip (map (\<lambda>i. i * b + bat) dst) (map (\<lambda>i. i * b + bat) src)) bats)"

definition copy_pairs :: "(nat \<times> nat) list \<Rightarrow> complex list \<Rightarrow> complex list \<Rightarrow> complex list" where
  "copy_pairs T src buf = fold (\<lambda>(d, s) buf. buf[d := src ! s]) T buf"

definition forward_data ::
  "complex list \<Rightarrow> nat list \<Rightarrow> nat list \<Rightarrow> nat list \<Rightarrow> nat list \<Rightarrow> csr_matrix \<Rightarrow> nat
     \<Rightarrow> complex list \<Rightarrow> complex list" where
  "forward_data s n_order k_order kshape axes p b v =
     spmm p b (foldr (fft_axis kshape) axes
       (copy_pairs (index_pairs k_order n_order b [0..<b]) (scale_data b s v)
          (replicate (prod_list kshape) 0)))"

definition adjoint_data ::
  "complex list \<Rightarrow> nat list \<Rightarrow> nat list \<Rightarrow> nat list \<Rightarrow> nat list \<Rightarrow> nat list \<Rightarrow> csr_matrix
     \<Rightarrow> nat \<Rightarrow> complex list \<Rightarrow> complex list" where
  "adjoint_data s n_order k_order nshape kshape axes p b v =
     scale_data b s
       (copy_pairs (index_pairs n_order k_order b [0..<b])
          (foldr (ifft_axis kshape) axes (spmm (getH p) b v))
          (replicate (prod_list nshape) 0))"

text \<open>
  \<open>lincomb a u b v\<close> is \<open>a*u + b*v\<close> element by element. \<open>linear_map n m f\<close>: \<open>f\<close>
  takes lists of length \<open>n\<close> to lists of length \<open>m\<close> and commutes with \<open>lincomb\<close>.
\<close>

definition lincomb :: "complex \<Rightarrow> complex list \<Rightarrow> complex \<Rightarrow> complex list \<Rightarrow> complex list" where
  "lincomb a u b v = map2 (\<lambda>x y. a * x + b * y) u v"

definition linear_map :: "nat \<Rightarrow> nat \<Rightarrow> (complex list \<Rightarrow> complex list) \<Rightarrow> bool" where
  "linear_map n m f =
     ((\<forall>u. length u = n \<longrightarrow> length (f u) = m) \<and>
      (\<forall>a b u v. length u = n \<longrightarrow> length v = n \<longrightarrow>
         f (lincomb a u b v) = lincomb a (f u) b (f v)))"

section \<open>A small operator for concrete instances\<close>

text \<open>
  One image point, an oversampled grid of two points and two samples; the builder
  result \<open>demo_st\<close> conforms to the builder's interface. \<open>demo_helper\<close> returns it
  for every geometry and takes the reorder tables from \<open>preindex_copy\<close>.
\<close>

definition demo_p :: csr_matrix where
  "demo_p = \<lparr>nrows = 2, ncols = 2, sdtype = Complex64,
             entries = [(0, 0, 1), (0, 1, \<i>), (1, 1, 2)]\<rparr>"

definition demo_st :: st_dict where
  "demo_st = \<lparr>st_Nd = [1], st_Kd = [2], st_Jd = [1], st_M = 2, st_p = Some demo_p,
              st_sn = Some \<lparr>shape = [1], adtype = Float64, ravel = [1]\<rparr>\<rparr>"

definition demo_helper :: helper_module where
  "demo_helper = \<lparr>helper_plan = (\<lambda>om N K J axes. Inr demo_st),
                  helper_preindex_copy = (\<lambda>N K. Inr (preindex_copy N K))\<rparr>"

definition demo_op :: NUFFT_cpu where
  "demo_op = snd (plan demo_helper NUFFT_cpu_init [[0], [1]] [1] [2] [1] None None)"

definition demo_T0 :: NUFFT where
  "demo_T0 = \<lparr>t_st = Some demo_st, t_Kd = Some [2], t_sp = None, t_spH = None,
              t_spHsp = None\<rparr>"

definition demo_T :: NUFFT where
  "demo_T = snd (NUFFT_precompute_sp demo_T0)"

definition demo_x :: ndarray where
  "demo_x = \<lparr>shape = [1], adtype = Complex64, ravel = [1]\<rparr>"

definition demo_k :: ndarray where
  "demo_k = \<lparr>shape = [2], adtype = Complex64, ravel = [1, 2]\<rparr>"

text \<open>Two variants of the helper: a builder that raises, and a table builder that raises.\<close>

definition demo_failing :: helper_module where
  "demo_failing = demo_helper\<lparr>helper_plan := (\<lambda>om N K J axes. Inl (BuilderError ''plan''))\<rparr>"

definition demo_no_tables :: helper_module where
  "demo_no_tables =
     demo_helper\<lparr>helper_preindex_copy := (\<lambda>N K. Inl (BuilderError ''preindex_copy''))\<rparr>"

text \<open>
  Builders returning a given one-row matrix, for the scenario of a plan, a first use of
  the weighting and a second plan: \<open>demo_op_a\<close> is planned from \<open>demo_pa\<close>,
  \<open>demo_op_a1\<close> is that object after \<open>selfadjoint2\<close>, \<open>demo_op_b\<close> is the same
  object planned again from \<open>demo_pb\<close>.
\<close>

definition demo_builder :: "csr_matrix \<Rightarrow> helper_module" where
  "demo_builder p =
     demo_helper\<lparr>helper_plan := (\<lambda>om N K J axes. Inr (demo_st\<lparr>st_M := nrows p, st_p := Some p\<rparr>))\<rparr>"

definition demo_pa :: csr_matrix where
  "demo_pa = \<lparr>nrows = 1, ncols = 2, sdtype = Complex64, entries = [(0, 0, 10)]\<rparr>"

definition demo_pb :: csr_matrix where
  "demo_pb = \<lparr>nrows = 1, ncols = 2, sdtype = Complex64, entries = [(0, 0, 4)]\<rparr>"

definition demo_op_a :: NUFFT_cpu where
  "demo_op_a = snd (plan (demo_builder demo_pa) NUFFT_cpu_init [[0]] [1] [2] [1] None None)"

definition demo_op_a1 :: NUFFT_cpu where
  "demo_op_a1 = snd (selfadjoint2 id demo_op_a demo_x)"

definition demo_op_b :: NUFFT_cpu where
  "demo_op_b = snd (plan (demo_builder demo_pb) demo_op_a1 [[0]] [1] [2] [1] None None)"

definition demo_empty :: ndarray where
  "demo_empty = \<lparr>shape = [0], adtype = Complex64, ravel = []\<rparr>"

definition demo_w5 :: ndarray where
  "demo_w5 = \<lparr>shape = [2], adtype = Complex64, ravel = [5, 5]\<rparr>"

definition demo_w2 :: ndarray where
  "demo_w2 = \<lparr>shape = [2], adtype = Complex64, ravel = [2, 2]\<rparr>"

text \<open>Inputs of other element types and shapes.\<close>

definition demo_x64 :: ndarray where
  "demo_x64 = \<lparr>shape = [1], adtype = Float64, ravel = [1]\<rparr>"

definition demo_x31 :: ndarray where
  "demo_x31 = \<lparr>shape = [3, 1], adtype = Complex64, ravel = [1, 7, 9]\<rparr>"

definition demo_y21 :: ndarray where
  "demo_y21 = \<lparr>shape = [2, 1], adtype = Complex64, ravel = [1, 1]\<rparr>"

definition demo_x3 :: ndarray where
  "demo_x3 = \<lparr>shape = [3], adtype = Complex64, ravel = [1, 2, 3]\<rparr>"

definition demo_y3 :: ndarray where
  "demo_y3 = \<lparr>shape = [3], adtype = Complex64, ravel = [1, 1, 1]\<rparr>"

text \<open>
  A second operator: two image points on an oversampled grid of four, one sample,
  planned without and with a batch axis of size 3.
\<close>

definition demo_st2 :: st_dict where
  "demo_st2 = \<lparr>st_Nd = [2], st_Kd = [4], st_Jd = [1], st_M = 1,
               st_p = Some \<lparr>nrows = 1, ncols = 4, sdtype = Complex64,
                             entries = [(0, 0, 1), (0, 3, \<i>)]\<rparr>,
               st_sn = Some \<lparr>shape = [2], adtype = Float64, ravel = [1, 2]\<rparr>\<rparr>"

definition demo_helper2 :: helper_module where
  "demo_helper2 = demo_helper\<lparr>helper_plan := (\<lambda>om N K J axes. Inr demo_st2)\<rparr>"

definition demo_op2 :: NUFFT_cpu where
  "demo_op2 = snd (plan demo_helper2 NUFFT_cpu_init [[0]] [2] [4] [1] None None)"

definition demo_op2b :: NUFFT_cpu where
  "demo_op2b = snd (plan demo_helper2 NUFFT_cpu_init [[0]] [2] [4] [1] None (Some 3))"

definition demo_xi :: ndarray where
  "demo_xi = \<lparr>shape = [1], adtype = Complex64, ravel = [\<i>]\<rparr>"

definition demo_x23 :: ndarray where
  "demo_x23 = \<lparr>shape = [1], adtype = Complex64, ravel = lincomb 2 [1] 3 [\<i>]\<rparr>"

definition demo_b1 :: ndarray where
  "demo_b1 = \<lparr>shape = [2, 3], adtype = Complex64, ravel = [1, 2, 3, 4, 5, 6]\<rparr>"

definition demo_b2 :: ndarray where
  "demo_b2 = \<lparr>shape = [2, 3], adtype = Complex64, ravel = [0, \<i>, 0, 1, 0, - 1]\<rparr>"

definition demo_b12 :: ndarray where
  "demo_b12 = \<lparr>shape = [2, 3], adtype = Complex64,
                ravel = lincomb 2 (ravel demo_b1) \<i> (ravel demo_b2)\<rparr>"

text \<open>
  The geometry of the shape contract: \<open>Nd = (16, 16)\<close>, \<open>Kd = (32, 32)\<close>,
  \<open>Jd = (6, 6)\<close>, 100 samples, planned without and with \<open>batch = 4\<close>.
\<close>

definition demo_st16 :: st_dict where
  "demo_st16 = \<lparr>st_Nd = [16, 16], st_Kd = [32, 32], st_Jd = [6, 6], st_M = 100,
                st_p = Some \<lparr>nrows = 100, ncols = 1024, sdtype = Complex64,
                              entries = [(0, 0, 1), (99, 1023, \<i>)]\<rparr>,
                st_sn = Some (np_ones [16, 16] Float64)\<rparr>"

definition demo_helper16 :: helper_module where
  "demo_helper16 = demo_helper\<lparr>helper_plan := (\<lambda>om N K J axes. Inr demo_st16)\<rparr>"

definition demo_op16 :: NUFFT_cpu where
  "demo_op16 =
     snd (plan demo_helper16 NUFFT_cpu_init (replicate 100 [0, 0]) [16, 16] [32, 32] [6, 6]
            None None)"

definition demo_op16b :: NUFFT_cpu where
  "demo_op16b =
     snd (plan demo_helper16 NUFFT_cpu_init (replicate 100 [0, 0]) [16, 16] [32, 32] [6, 6]
            None (Some 4))"

text \<open>A data vector for \<open>demo_op\<close>.\<close>

definition demo_y :: ndarray where
  "demo_y = \<lparr>shape = [2], adtype = Complex64, ravel = [1, 1]\<rparr>"

text \<open>The batch of \<open>demo_b1\<close> in double precision.\<close>

definition demo_b128 :: ndarray where
  "demo_b128 = \<lparr>shape = [2, 3], adtype = Complex128, ravel = [1, 2, 3, 4, 5, 6]\<rparr>"

section \<open>Basic facts\<close>

lemma ebind_simps [simp]: "ebind (Inr v) f = f v" "ebind (Inl e) f = Inl e"
  by (simp_all add: ebind_def)

lemma attr_simps [simp]: "attr (Some v) = Inr v" "attr None = Inl AttributeError"
  by (simp_all add: attr_def)

lemma item_simps [simp]: "item (Some v) = Inr v" "item None = Inl KeyError"
  by (simp_all add: item_def)

lemma ebind_assoc: "ebind (ebind m f) g = ebind m (\<lambda>v. ebind (f v) g)"
  by (cases m) simp_all

lemma ebind_cong: "(\<And>v. m = Inr v \<Longrightarrow> f v = g v) \<Longrightarrow> ebind m f = ebind m g"
  by (cases m) simp_all

lemma result_type_idem [simp]: "result_type d d = d"
  by (cases d) simp_all

lemma result_type_left [simp]: "result_type d (result_type d e) = result_type d e"
  by (cases d; cases e) simp_all

lemma y2k_fun: "y2k self = (\<lambda>y. ebind (y2vec self y) (vec2k self))"
  by (rule ext) (simp add: y2k_def)

lemma adjoint_fun:
  "adjoint fd self = (\<lambda>y. ebind (ebind (y2k self y) (k2xx fd self)) (xx2x self))"
  by (rule ext) (simp add: adjoint_def)

lemma grid_index_less: "i < n \<Longrightarrow> j < m \<Longrightarrow> i * m + j < n * (m::nat)"
proof -
  assume a: "i < n" "j < m"
  have "Suc i * m \<le> n * m" using a(1) by (intro mult_le_mono1) simp
  then show ?thesis using a(2) by simp
qed

lemma length_concat_grid [simp]:
  "length (concat (map (\<lambda>k. map (f k) [0..<m]) [0..<n])) = n * m"
  by (induction n) simp_all

lemma concat_grid_nth:
  "i < n \<Longrightarrow> j < m \<Longrightarrow> concat (map (\<lambda>k. map (f k) [0..<m]) [0..<n]) ! (i * m + j) = f i j"
proof (induction n)
  case 0
  then show ?case by simp
next
  case (Suc n)
  show ?case
  proof (cases "i < n")
    case True
    then have "i * m + j < n * m"
      using Suc.prems(2) by (rule grid_index_less)
    then show ?thesis using Suc True by (simp add: nth_append)
  next
    case False
    then have "i = n" using Suc.prems by simp
    then show ?thesis using Suc.prems by (simp add: nth_append)
  qed
qed

lemma length_spmm [simp]: "length (spmm A b v) = nrows A * b"
  by (simp add: spmm_def)

lemma spmm_nth:
  "m < nrows A \<Longrightarrow> j < b \<Longrightarrow>
   spmm A b v ! (m * b + j) =
     (\<Sum>(r, c, a)\<leftarrow>filter (\<lambda>(r, c, a). r = m) (entries A). a * v ! (c * b + j))"
  unfolding spmm_def by (rule concat_grid_nth)

lemma matmul_row_sum:
  fixes es es' :: "(nat \<times> nat \<times> complex) list" and g :: "nat \<Rightarrow> complex"
  shows "(\<Sum>(r, c', x)\<leftarrow>filter (\<lambda>(r, c', x). r = m)
        (concat (map (\<lambda>(r, c, a). map (\<lambda>(r', c', a'). (r, c', a * a'))
                                      (filter (\<lambda>(r', c', a'). r' = c) es')) es)).
      x * (g c' :: complex)) =
   (\<Sum>(r, c, a)\<leftarrow>filter (\<lambda>(r, c, a). r = m) es.
      a * (\<Sum>(r', c', a')\<leftarrow>filter (\<lambda>(r', c', a'). r' = c) es'. a' * g c'))"
proof (induction es)
  case Nil
  then show ?case by simp
next
  case (Cons e es)
  obtain r c a where e: "e = (r, c, a)" by (cases e)
  have inner: "sum_list (map ((\<lambda>(r, c', x). x * g c') \<circ> (\<lambda>(r', c', a'). (q, c', a * a'))) bs) =
     a * (\<Sum>(r', c', a')\<leftarrow>bs. a' * g c')" for bs :: "(nat \<times> nat \<times> complex) list" and q :: nat
    by (induction bs) (auto simp: algebra_simps)
  have filt: "filter (\<lambda>(r, c', x). r = m) (map (\<lambda>(r', c', a'). (r, c', a * a')) bs) =
     (if r = m then map (\<lambda>(r', c', a'). (r, c', a * a')) bs else [])" for bs :: "(nat \<times> nat \<times> complex) list"
    by (induction bs) auto
  show ?case using Cons.IH by (simp add: e filt inner)
qed

lemma matrix_ok_getH: "matrix_ok p \<Longrightarrow> matrix_ok (getH p)"
  by (auto simp: matrix_ok_def getH_def)

lemma getH_simps [simp]:
  "nrows (getH p) = ncols p" "ncols (getH p) = nrows p" "sdtype (getH p) = sdtype p"
  by (simp_all add: getH_def)

lemma spmm_matmul:
  assumes C: "sp_matmul A B = Inr C" and ok: "matrix_ok A"
  shows "spmm C b v = spmm A b (spmm B b v)"
proof -
  from C have dims: "ncols A = nrows B" and rowsC: "nrows C = nrows A"
    and eC: "entries C = concat (map (\<lambda>(r, c, a).
                             map (\<lambda>(r', c', a'). (r, c', a * a'))
                                 (filter (\<lambda>(r', c', a'). r' = c) (entries B)))
                           (entries A))"
    by (auto simp: sp_matmul_def split: if_splits)
  have row: "(\<Sum>(r, c, a)\<leftarrow>filter (\<lambda>(r, c, a). r = m) (entries C). a * v ! (c * b + j)) =
             (\<Sum>(r, c, a)\<leftarrow>filter (\<lambda>(r, c, a). r = m) (entries A). a * spmm B b v ! (c * b + j))"
    if j: "j < b" for m j
  proof -
    have "(\<Sum>(r, c, a)\<leftarrow>filter (\<lambda>(r, c, a). r = m) (entries C). a * v ! (c * b + j)) =
          (\<Sum>(r, c, a)\<leftarrow>filter (\<lambda>(r, c, a). r = m) (entries A).
             a * (\<Sum>(r', c', a')\<leftarrow>filter (\<lambda>(r', c', a'). r' = c) (entries B). a' * v ! (c' * b + j)))"
      unfolding eC by (rule matmul_row_sum)
    also have "\<dots> = (\<Sum>(r, c, a)\<leftarrow>filter (\<lambda>(r, c, a). r = m) (entries A). a * spmm B b v ! (c * b + j))"
    proof (rule arg_cong[where f = sum_list], rule map_cong[OF refl])
      fix e assume "e \<in> set (filter (\<lambda>(r, c, a). r = m) (entries A))"
      then have mem: "e \<in> set (entries A)" by simp
      obtain r c a where e: "e = (r, c, a)" by (cases e)
      have "c < nrows B" using mem ok dims e by (auto simp: matrix_ok_def)
      with e show "(case e of (r, c, a) \<Rightarrow> a * (\<Sum>(r', c', a')\<leftarrow>filter (\<lambda>(r', c', a'). r' = c) (entries B). a' * v ! (c' * b + j))) =
                 (case e of (r, c, a) \<Rightarrow> a * spmm B b v ! (c * b + j))"
        using j by (simp add: spmm_nth)
    qed
    finally show ?thesis .
  qed
  show ?thesis
    unfolding spmm_def[of C] spmm_def[of A] rowsC
    by (intro arg_cong[where f = concat] map_cong refl) (simp add: row)
qed

lemma NUFFT_y2k_fun: "NUFFT_y2k self = (\<lambda>y. ebind (NUFFT_y2vec self y) (NUFFT_vec2k self))"
  by (rule ext) (simp add: NUFFT_y2k_def)

lemma NUFFT_k2y2k_composition:
  assumes sp: "t_sp self = Some p" and spH: "t_spH self = Some (getH p)"
    and spHsp: "t_spHsp self = Some C" and C: "sp_matmul (getH p) p = Inr C"
    and ok: "matrix_ok p"
  shows "NUFFT_k2y2k self k = ebind (NUFFT_k2y self k) (NUFFT_y2k self)"
proof (cases "NUFFT_k2vec self k")
  case (Inl e)
  then show ?thesis by (simp add: NUFFT_k2y2k_def NUFFT_k2y_def)
next
  case (Inr Xk)
  from C have dimsC: "nrows C = ncols p" "ncols C = ncols p"
    "sdtype C = sdtype p"
    by (auto simp: sp_matmul_def split: if_splits)
  have data: "spmm C b v = spmm (getH p) b (spmm p b v)" for b v
    using spmm_matmul[OF C matrix_ok_getH[OF ok]] .
  have "ebind (sp_dot C Xk) (NUFFT_vec2k self) =
        ebind (ebind (sp_dot p Xk) (sp_dot (getH p))) (NUFFT_vec2k self)"
    by (rule arg_cong[where f = "\<lambda>m. ebind m (NUFFT_vec2k self)"])
       (auto simp: sp_dot_def dimsC data split: list.splits)
  then show ?thesis
    using Inr sp spH spHsp
    by (simp add: NUFFT_k2y2k_def NUFFT_k2y_def NUFFT_y2k_fun NUFFT_vec2y_def
        NUFFT_y2vec_def ebind_assoc)
qed

lemma ebind_eq_Inr: "ebind m f = Inr v \<longleftrightarrow> (\<exists>u. m = Inr u \<and> f u = Inr v)"
  by (cases m) simp_all

section \<open>Evaluating concrete instances\<close>

lemma sqrt_abs2_cmod: "sqrt_abs2 w = w\<lparr>ravel := map (\<lambda>z. of_real (cmod z)) (ravel w)\<rparr>"
proof -
  have "csqrt (z * cnj z) = of_real (cmod z)" for z
  proof -
    have "csqrt (z * cnj z) = csqrt (complex_of_real ((cmod z)\<^sup>2))"
      by (simp only: complex_norm_square)
    also have "\<dots> = complex_of_real (sqrt ((cmod z)\<^sup>2))"
      by (rule csqrt_of_real) simp
    finally show ?thesis by simp
  qed
  then show ?thesis by (simp add: sqrt_abs2_def)
qed

lemma cis_minus_pi: "cis (- pi) = - 1"
  by (simp add: complex_eq_iff)

lemma omega_simps: "omega sg n 0 = 1" "omega (- 1) 2 (Suc 0) = - 1" "omega 1 2 (Suc 0) = - 1"
  by (simp_all add: omega_def cis_minus_pi)

lemma upt_2: "[0..<2] = [0, Suc 0]"
  by (simp add: upt_rec)

lemmas plan_eval = plan_def plan_axes_def plan_batch_def plan_matrices_def Let_def numpy_prod_def
  preindex_copy_def getH_def np_reshape_def

lemmas stage_eval = forward_def adjoint_def selfadjoint_def x2xx_def xx2x_def np_mul_def
  broadcast_shapes_def bcast_index_def xx2k_def xx2k_scatter_def k2xx_def k2xx_gather_def
  np_zeros_def np_ones_def take_idx_def put_idx_def fftn_def ifftn_def fft_axis_def ifft_axis_def
  dft_lead_def k2y_def y2k_def k2vec_def vec2k_def vec2y_def y2vec_def k2y2k_def np_reshape_def
  sp_dot_def spmm_def

lemmas dft_eval = cis_minus_pi omega_simps upt_2

section \<open>What \<open>plan\<close> assigns\<close>

lemma plan_batch_result:
  assumes "length (ravel s) = prod_list (st_Nd d)"
  shows "plan_batch self d s b =
     (Inr (), self\<lparr>parallel_flag := Some (case b of None \<Rightarrow> 0 | Some _ \<Rightarrow> 1),
        batch := Some (case b of None \<Rightarrow> 1 | Some v \<Rightarrow> v),
        multi_Nd := Some (st_Nd d @ (case b of None \<Rightarrow> [] | Some v \<Rightarrow> [v])),
        multi_Kd := Some (st_Kd d @ (case b of None \<Rightarrow> [] | Some v \<Rightarrow> [v])),
        multi_M := Some (st_M d # (case b of None \<Rightarrow> [] | Some v \<Rightarrow> [v])),
        multi_prodKd := Some (numpy_prod (st_Kd d) # (case b of None \<Rightarrow> [] | Some v \<Rightarrow> [Some v])),
        sn := (case b of None \<Rightarrow> sn self | Some _ \<Rightarrow> Some (s\<lparr>shape := st_Nd d @ [1]\<rparr>))\<rparr>)"
  using assms by (cases b) (simp_all add: plan_batch_def np_reshape_def Let_def)

lemma plan_result:
  assumes hp: "helper_plan helper om N0 K0 J0 (plan_axes N0 a) = Inr d"
    and sn: "st_sn d = Some s" and len: "length (ravel s) = prod_list (st_Nd d)"
    and p: "st_p d = Some p"
    and tabs: "helper_preindex_copy helper (st_Nd d) (st_Kd d) = Inr (n_order, k_order, n)"
  shows "plan helper self om N0 K0 J0 a b =
     (Inr 0, self\<lparr>ndims := Some (length N0), ft_axes := Some (plan_axes N0 a),
        st := Some (d\<lparr>st_p := None, st_sn := None\<rparr>), Nd := Some (st_Nd d), Kd := Some (st_Kd d),
        sn := Some (s\<lparr>adtype := dtype self,
                      shape := (case b of None \<Rightarrow> shape s | Some _ \<Rightarrow> st_Nd d @ [1])\<rparr>),
        parallel_flag := Some (case b of None \<Rightarrow> 0 | Some _ \<Rightarrow> 1),
        batch := Some (case b of None \<Rightarrow> 1 | Some v \<Rightarrow> v),
        multi_Nd := Some (st_Nd d @ (case b of None \<Rightarrow> [] | Some v \<Rightarrow> [v])),
        multi_Kd := Some (st_Kd d @ (case b of None \<Rightarrow> [] | Some v \<Rightarrow> [v])),
        multi_M := Some (st_M d # (case b of None \<Rightarrow> [] | Some v \<Rightarrow> [v])),
        multi_prodKd := Some (numpy_prod (st_Kd d) # (case b of None \<Rightarrow> [] | Some v \<Rightarrow> [Some v])),
        sp := Some p, spH := Some (getH p),
        Kdprod := Some (word_of_nat (prod_list (st_Kd d))),
        Jdprod := Some (word_of_nat (prod_list (st_Jd d))),
        NdCPUorder := Some n_order, KdCPUorder := Some k_order, nelem := Some n\<rparr>)"
  using hp sn p tabs len
  by (cases b) (simp_all add: plan_def Let_def plan_batch_result plan_matrices_def)

lemma plan_planned:
  assumes hp: "helper_plan helper om N0 K0 J0 (plan_axes N0 a) = Inr d"
    and conf: "conforming d"
    and tabs: "helper_preindex_copy helper (st_Nd d) (st_Kd d) = Inr tabs"
    and tok: "tables_ok (st_Nd d) (st_Kd d) tabs"
    and axes: "\<forall>ax \<in> set (plan_axes N0 a). ax < length (st_Kd d) \<and> st_Kd d ! ax \<noteq> 0"
  shows "planned (snd (plan helper self om N0 K0 J0 a b)) (st_Nd d) (st_Kd d) (st_M d)
           (case b of None \<Rightarrow> [] | Some v \<Rightarrow> [v])"
proof -
  from conf obtain s p where s: "st_sn d = Some s" "shape s = st_Nd d"
      "length (ravel s) = prod_list (st_Nd d)"
    and p: "st_p d = Some p" "nrows p = st_M d" "ncols p = prod_list (st_Kd d)" "matrix_ok p"
    and dims: "length (st_Nd d) = length (st_Kd d)" "st_Kd d \<noteq> []"
    by (auto simp: conforming_def split: option.splits)
  obtain n_order k_order n where t: "tabs = (n_order, k_order, n)" by (cases tabs)
  show ?thesis
    using plan_result[OF hp s(1) s(3) p(1) tabs[unfolded t], of self b] s p dims tok axes
    by (cases b) (simp_all add: planned_def t tables_ok_def numpy_prod_def)
qed

lemma plan_keeps_W: "W (snd (plan helper self om N0 K0 J0 a b)) = W self"
  by (auto simp: plan_def Let_def plan_batch_def plan_matrices_def
      split: sum.splits option.splits prod.splits)

lemma plan_keeps_dtype: "dtype (snd (plan helper self om N0 K0 J0 a b)) = dtype self"
  by (auto simp: plan_def Let_def plan_batch_def plan_matrices_def
      split: sum.splits option.splits prod.splits)

section \<open>The concrete operators\<close>

lemma demo_op_val:
  "demo_op =
     \<lparr>dtype = Complex64, debug = 0, ndims = Some 1, ft_axes = Some [0],
      st = Some \<lparr>st_Nd = [1], st_Kd = [2], st_Jd = [1], st_M = 2, st_p = None, st_sn = None\<rparr>,
      Nd = Some [1], Kd = Some [2],
      sn = Some \<lparr>shape = [1], adtype = Complex64, ravel = [1]\<rparr>,
      parallel_flag = Some 0, batch = Some 1, multi_Nd = Some [1], multi_Kd = Some [2],
      multi_M = Some [2], multi_prodKd = Some [Some 2],
      sp = Some demo_p, spH = Some (getH demo_p),
      Kdprod = Some 2, Jdprod = Some 1, NdCPUorder = Some [0], KdCPUorder = Some [0],
      nelem = Some 1, W = None\<rparr>"
  by (simp add: demo_op_def plan_eval demo_helper_def demo_st_def NUFFT_cpu_init_def)

lemmas demo_eval = demo_op_val demo_p_def demo_x_def demo_k_def getH_def

lemma demo_forward: "forward fd demo_op demo_x =
    Inr \<lparr>shape = [2], adtype = result_type Complex64 (fd Complex64), ravel = [1 + \<i>, 2]\<rparr>"
  by (simp add: demo_eval stage_eval dft_eval)

lemma demo_adjoint: "adjoint fd demo_op \<lparr>shape = [2], adtype = Complex64, ravel = [1, 1]\<rparr> =
    Inr \<lparr>shape = [1], adtype = Complex64, ravel = [(3 - \<i>) / 2]\<rparr>"
  by (simp add: demo_eval stage_eval dft_eval)

lemma demo_planned: "planned demo_op [1] [2] 2 []"
  by (simp add: planned_def demo_op_val getH_def demo_p_def matrix_ok_def)

lemma demo_st2_conforming: "conforming demo_st2"
  by (simp add: conforming_def demo_st2_def matrix_ok_def)

lemma demo_op2_planned: "planned demo_op2 [2] [4] 1 []"
proof -
  have "planned (snd (plan demo_helper2 NUFFT_cpu_init [[0]] [2] [4] [1] None None))
          (st_Nd demo_st2) (st_Kd demo_st2) (st_M demo_st2) (case None of None \<Rightarrow> [] | Some v \<Rightarrow> [v])"
    by (rule plan_planned[where tabs = "([0, 1], [1, 2], 2)"])
       (simp_all add: demo_helper2_def demo_helper_def demo_st2_conforming tables_ok_def
         plan_axes_def, simp_all add: demo_st2_def preindex_copy_def upt_rec)
  then show ?thesis by (simp add: demo_op2_def demo_st2_def)
qed

lemma demo_op2b_planned: "planned demo_op2b [2] [4] 1 [3]"
proof -
  have "planned (snd (plan demo_helper2 NUFFT_cpu_init [[0]] [2] [4] [1] None (Some 3)))
          (st_Nd demo_st2) (st_Kd demo_st2) (st_M demo_st2) (case Some 3 of None \<Rightarrow> [] | Some v \<Rightarrow> [v])"
    by (rule plan_planned[where tabs = "([0, 1], [1, 2], 2)"])
       (simp_all add: demo_helper2_def demo_helper_def demo_st2_conforming tables_ok_def
         plan_axes_def, simp_all add: demo_st2_def preindex_copy_def upt_rec)
  then show ?thesis by (simp add: demo_op2b_def demo_st2_def)
qed

section \<open>The stages of a planned operator\<close>

lemma bcast_rev_same: "bcast_rev r r = Some r"
  by (induction r) simp_all

lemma bcast_index_rev_same: "i < prod_list r \<Longrightarrow> bcast_index_rev r r i = i"
proof (induction r arbitrary: i)
  case Nil
  then show ?case by simp
next
  case (Cons d ds)
  then have d: "d > 0" by (cases d) simp_all
  have "i div d < prod_list ds"
    using Cons.prems d by (simp add: less_mult_imp_div_less mult.commute)
  then have "bcast_index_rev ds ds (i div d) = i div d" by (rule Cons.IH)
  then show ?case by (cases "d = 1") simp_all
qed

lemma broadcast_shapes_same: "broadcast_shapes s s = Some s"
  by (simp add: broadcast_shapes_def bcast_rev_same)

lemma broadcast_shapes_batch: "broadcast_shapes (N @ [b]) (N @ [Suc 0]) = Some (N @ [b])"
  by (simp add: broadcast_shapes_def bcast_rev_same)

lemma bcast_index_same: "i < prod_list s \<Longrightarrow> bcast_index s s i = i"
  by (simp add: bcast_index_def bcast_index_rev_same)

lemma bcast_index_batch:
  assumes "i < prod_list N * b"
  shows "bcast_index (N @ [Suc 0]) (N @ [b]) i = i div b"
proof -
  have "i div b < prod_list (rev N)"
    using assms by (simp add: less_mult_imp_div_less)
  then show ?thesis by (simp add: bcast_index_def bcast_index_rev_same)
qed

lemma np_mul_sn:
  assumes t: "length t \<le> 1" and sx: "shape x = N @ t"
    and ss: "shape s = N @ map (\<lambda>_. 1) t" and lx: "length (ravel x) = prod_list (N @ t)"
  shows "np_mul x s = Inr \<lparr>shape = N @ t, adtype = result_type (adtype x) (adtype s),
                          ravel = scale_data (prod_list t) (ravel s) (ravel x)\<rparr>"
proof (cases t)
  case Nil
  then show ?thesis
    using sx ss lx
    by (simp add: np_mul_def broadcast_shapes_same scale_data_def bcast_index_same cong: map_cong)
next
  case (Cons b t')
  with t have t': "t = [b]" by simp
  show ?thesis
    using sx ss lx
    by (simp add: t' np_mul_def broadcast_shapes_batch scale_data_def bcast_index_same
        bcast_index_batch cong: map_cong)
qed

lemma length_copy_pairs [simp]: "length (copy_pairs T src buf) = length buf"
  unfolding copy_pairs_def by (induction T arbitrary: buf) auto

lemma copy_pairs_append:
  "copy_pairs (T @ T') src buf = copy_pairs T' src (copy_pairs T src buf)"
  by (simp add: copy_pairs_def)

lemma index_pairs_Cons:
  "index_pairs dst src b (bat # bats) =
     zip (map (\<lambda>i. i * b + bat) dst) (map (\<lambda>i. i * b + bat) src) @ index_pairs dst src b bats"
  by (simp add: index_pairs_def)

lemma index_pairs_Nil [simp]: "index_pairs dst src b [] = []"
  by (simp add: index_pairs_def)

lemma take_idx_ok:
  "\<forall>i \<in> set idx. i < length v \<Longrightarrow> take_idx v idx = Inr (map ((!) v) idx)"
  by (simp add: take_idx_def)

lemma put_idx_pairs:
  assumes "length ds = length ss" "\<forall>d \<in> set ds. d < length buf"
  shows "put_idx buf ds (map ((!) src) ss) = Inr (copy_pairs (zip ds ss) src buf)"
proof -
  have "zip ds (map ((!) src) ss) = map (\<lambda>(d, s). (d, src ! s)) (zip ds ss)"
    by (simp add: zip_map2)
  then have "fold (\<lambda>(i, v) b. b[i := v]) (zip ds (map ((!) src) ss)) buf =
             copy_pairs (zip ds ss) src buf"
    by (simp add: copy_pairs_def fold_map comp_def case_prod_unfold)
  then show ?thesis using assms by (simp add: put_idx_def)
qed

lemma loop_pairs:
  assumes len: "length dst = length sidx"
    and sr: "\<forall>i \<in> set sidx. i < n" and dr: "\<forall>i \<in> set dst. i < k"
    and ls: "length src = n * b" and bats: "\<forall>bat \<in> set bats. bat < b"
  shows "length buf = k * b \<Longrightarrow>
     (NdCPUorder self = Some sidx \<longrightarrow> KdCPUorder self = Some dst \<longrightarrow> batch self = Some b \<longrightarrow>
        xx2k_loop self src bats buf = Inr (copy_pairs (index_pairs dst sidx b bats) src buf)) \<and>
     (KdCPUorder self = Some sidx \<longrightarrow> NdCPUorder self = Some dst \<longrightarrow> batch self = Some b \<longrightarrow>
        k2xx_loop self src bats buf = Inr (copy_pairs (index_pairs dst sidx b bats) src buf))"
  using bats
proof (induction bats arbitrary: buf)
  case Nil
  then show ?case by (simp add: copy_pairs_def)
next
  case (Cons bat bats)
  then have bat: "bat < b" by simp
  have rd: "\<forall>i \<in> set (map (\<lambda>i. i * b + bat) sidx). i < length src"
    using sr bat ls by (auto intro: grid_index_less)
  have wr: "\<forall>i \<in> set (map (\<lambda>i. i * b + bat) dst). i < length buf"
    using dr bat Cons.prems(1) by (auto intro: grid_index_less)
  have step: "put_idx buf (map (\<lambda>i. i * b + bat) dst)
                (map ((!) src) (map (\<lambda>i. i * b + bat) sidx)) =
              Inr (copy_pairs (zip (map (\<lambda>i. i * b + bat) dst) (map (\<lambda>i. i * b + bat) sidx)) src buf)"
    by (rule put_idx_pairs) (use len wr in simp_all)
  have lb: "length (copy_pairs (zip (map (\<lambda>i. i * b + bat) dst) (map (\<lambda>i. i * b + bat) sidx)) src buf) = k * b"
    using Cons.prems(1) by simp
  from Cons.IH[OF lb] Cons.prems(2) show ?case
    using take_idx_ok[OF rd] step
    by (simp add: index_pairs_Cons copy_pairs_append del: map_map)
qed

lemma length_dft_lead [simp]: "length (dft_lead sg n m v) = n * m"
  by (simp add: dft_lead_def)

lemma length_concat_const:
  "(\<And>i. i < d \<Longrightarrow> length (f i) = m) \<Longrightarrow> length (concat (map f [0..<d])) = d * m"
  by (induction d) simp_all

lemma length_block: "Suc i * m \<le> length v \<Longrightarrow> length (take m (drop (i * m) v)) = m"
  by simp

lemma block_fits: "i < d \<Longrightarrow> Suc i * m \<le> d * (m::nat)"
  by (intro mult_le_mono1) simp

lemma length_dft_axis:
  "ax < length s \<Longrightarrow> length v = prod_list s \<Longrightarrow> length (dft_axis sg s ax v) = prod_list s"
proof (induction sg s ax v rule: dft_axis.induct)
  case (1 sg ax v)
  then show ?case by simp
next
  case (2 sg d ds v)
  then show ?case by simp
next
  case (3 sg d ds ax v)
  have "length (concat (map (\<lambda>i. dft_axis sg ds ax (take (prod_list ds) (drop (i * prod_list ds) v)))
                 [0..<d])) = d * prod_list ds"
  proof (rule length_concat_const)
    fix i assume i: "i < d"
    have "length (take (prod_list ds) (drop (i * prod_list ds) v)) = prod_list ds"
      using block_fits[OF i, of "prod_list ds"] "3.prems"(2) by (intro length_block) simp
    then show "length (dft_axis sg ds ax (take (prod_list ds) (drop (i * prod_list ds) v))) = prod_list ds"
      using "3.IH"[of i] "3.prems"(1) i by simp
  qed
  then show ?case by simp
qed

lemma length_fft_axis:
  "ax < length s \<Longrightarrow> length v = prod_list s \<Longrightarrow> length (fft_axis s ax v) = prod_list s"
  by (simp add: fft_axis_def length_dft_axis)

lemma length_ifft_axis:
  "ax < length s \<Longrightarrow> length v = prod_list s \<Longrightarrow> length (ifft_axis s ax v) = prod_list s"
  by (simp add: ifft_axis_def length_dft_axis)

lemma length_foldr_axes:
  assumes "\<And>ax v. ax < length s \<Longrightarrow> length v = prod_list s \<Longrightarrow> length (f ax v) = prod_list s"
  shows "\<forall>ax \<in> set axes. ax < length s \<Longrightarrow> length v = prod_list s \<Longrightarrow>
         length (foldr f axes v) = prod_list s"
  by (induction axes) (simp_all add: assms)

lemma planned_attrs:
  assumes "planned self N K M t"
  obtains s p axes n_order k_order where
    "length t \<le> 1" "length N = length K" "K \<noteq> []"
    "batch self = Some (prod_list t)" "multi_Nd self = Some (N @ t)"
    "multi_Kd self = Some (K @ t)" "multi_M self = Some (M # t)"
    "multi_prodKd self = Some (map Some (prod_list K # t))"
    "sn self = Some s" "shape s = N @ map (\<lambda>_. 1) t" "adtype s = dtype self"
    "length (ravel s) = prod_list N"
    "sp self = Some p" "spH self = Some (getH p)" "nrows p = M" "ncols p = prod_list K"
    "matrix_ok p"
    "ft_axes self = Some axes" "\<forall>ax \<in> set axes. ax < length K \<and> K ! ax \<noteq> 0"
    "NdCPUorder self = Some n_order" "KdCPUorder self = Some k_order"
    "length n_order = length k_order" "\<forall>i \<in> set n_order. i < prod_list N"
    "\<forall>i \<in> set k_order. i < prod_list K"
  using assms by (auto simp: planned_def split: option.splits)

lemma those_map_Some [simp]: "those (map Some xs) = Some xs"
  by (induction xs) simp_all

lemma x2xx_planned:
  assumes "sn self = Some s" "length t \<le> 1" "shape s = N @ map (\<lambda>_. 1) t"
    "shape x = N @ t" "length (ravel x) = prod_list (N @ t)"
  shows "x2xx self x = Inr \<lparr>shape = N @ t, adtype = result_type (adtype x) (adtype s),
                            ravel = scale_data (prod_list t) (ravel s) (ravel x)\<rparr>"
  using assms by (simp add: x2xx_def np_mul_sn)

lemma length_scale_data [simp]: "length (scale_data b s v) = length v"
  by (simp add: scale_data_def)

lemma xx2k_scatter_planned:
  assumes "multi_Kd self = Some (K @ t)" "batch self = Some (prod_list t)"
    "NdCPUorder self = Some n_order" "KdCPUorder self = Some k_order"
    "length n_order = length k_order" "\<forall>i \<in> set n_order. i < prod_list N"
    "\<forall>i \<in> set k_order. i < prod_list K"
    "length (ravel xx) = prod_list N * prod_list t"
  shows "xx2k_scatter self xx =
     Inr \<lparr>shape = K @ t, adtype = dtype self,
          ravel = copy_pairs (index_pairs k_order n_order (prod_list t) [0..<prod_list t]) (ravel xx)
                    (replicate (prod_list (K @ t)) 0)\<rparr>"
proof -
  have "xx2k_loop self (ravel xx) [0..<prod_list t] (replicate (prod_list (K @ t)) 0) =
        Inr (copy_pairs (index_pairs k_order n_order (prod_list t) [0..<prod_list t]) (ravel xx)
               (replicate (prod_list (K @ t)) 0))"
    using loop_pairs[where dst = k_order and sidx = n_order and n = "prod_list N"
        and k = "prod_list K" and src = "ravel xx" and b = "prod_list t"
        and bats = "[0..<prod_list t]" and buf = "replicate (prod_list (K @ t)) 0" and self = self]
      assms by simp
  then show ?thesis using assms(1,2) by (simp add: xx2k_scatter_def np_zeros_def)
qed

lemma k2xx_gather_planned:
  assumes "multi_Nd self = Some (N @ t)" "batch self = Some (prod_list t)"
    "NdCPUorder self = Some n_order" "KdCPUorder self = Some k_order"
    "length n_order = length k_order" "\<forall>i \<in> set n_order. i < prod_list N"
    "\<forall>i \<in> set k_order. i < prod_list K"
    "length (ravel k) = prod_list K * prod_list t"
  shows "k2xx_gather self k =
     Inr \<lparr>shape = N @ t, adtype = dtype self,
          ravel = copy_pairs (index_pairs n_order k_order (prod_list t) [0..<prod_list t]) (ravel k)
                    (replicate (prod_list (N @ t)) 0)\<rparr>"
proof -
  have "k2xx_loop self (ravel k) [0..<prod_list t] (replicate (prod_list (N @ t)) 0) =
        Inr (copy_pairs (index_pairs n_order k_order (prod_list t) [0..<prod_list t]) (ravel k)
               (replicate (prod_list (N @ t)) 0))"
    using loop_pairs[where dst = n_order and sidx = k_order and n = "prod_list K"
        and k = "prod_list N" and src = "ravel k" and b = "prod_list t"
        and bats = "[0..<prod_list t]" and buf = "replicate (prod_list (N @ t)) 0" and self = self]
      assms by simp
  then show ?thesis using assms(1,2) by (simp add: k2xx_gather_def np_zeros_def)
qed

lemma axes_ok:
  assumes "\<forall>ax \<in> set axes. ax < length K \<and> K ! ax \<noteq> 0"
  shows "\<forall>ax \<in> set axes. ax < length (K @ t) \<and> (K @ t) ! ax \<noteq> 0"
  using assms by (auto simp: nth_append)

lemma fftn_ok:
  "\<forall>ax \<in> set axes. ax < length (shape a) \<and> shape a ! ax \<noteq> 0 \<Longrightarrow>
   fftn fd a axes = Inr \<lparr>shape = shape a, adtype = fd (adtype a),
                         ravel = foldr (fft_axis (shape a)) axes (ravel a)\<rparr>"
  by (auto simp: fftn_def)

lemma ifftn_ok:
  "\<forall>ax \<in> set axes. ax < length (shape a) \<and> shape a ! ax \<noteq> 0 \<Longrightarrow>
   ifftn fd a axes = Inr \<lparr>shape = shape a, adtype = fd (adtype a),
                          ravel = foldr (ifft_axis (shape a)) axes (ravel a)\<rparr>"
  by (auto simp: ifftn_def)

lemma k2y_planned:
  assumes "multi_prodKd self = Some (map Some (prod_list K # t))" "sp self = Some p"
    "ncols p = prod_list K" "length t \<le> 1" "length (ravel k) = prod_list K * prod_list t"
  shows "k2y self k = Inr \<lparr>shape = nrows p # t, adtype = result_type (sdtype p) (adtype k),
                          ravel = spmm p (prod_list t) (ravel k)\<rparr>"
proof (cases t)
  case Nil
  then show ?thesis using assms
    by (simp add: k2y_def k2vec_def np_reshape_def vec2y_def sp_dot_def)
next
  case (Cons b t')
  with assms(4) have "t = [b]" by simp
  then show ?thesis using assms
    by (simp add: k2y_def k2vec_def np_reshape_def vec2y_def sp_dot_def)
qed

lemma y2k_planned:
  assumes "multi_Kd self = Some (K @ t)" "spH self = Some (getH p)"
    "ncols p = prod_list K" "length t \<le> 1" "shape y = nrows p # t"
  shows "y2k self y = Inr \<lparr>shape = K @ t, adtype = result_type (sdtype p) (adtype y),
                          ravel = spmm (getH p) (prod_list t) (ravel y)\<rparr>"
proof (cases t)
  case Nil
  then show ?thesis using assms
    by (simp add: y2k_def y2vec_def np_reshape_def vec2k_def sp_dot_def)
next
  case (Cons b t')
  with assms(4) have "t = [b]" by simp
  then show ?thesis using assms
    by (simp add: y2k_def y2vec_def np_reshape_def vec2k_def sp_dot_def)
qed

section \<open>\<open>forward\<close> and \<open>adjoint\<close> of a planned operator\<close>

lemma forward_planned:
  assumes pl: "planned self N K M t"
    and x: "shape x = N @ t" "length (ravel x) = prod_list (N @ t)"
  shows "\<exists>s p axes n_order k_order.
     sn self = Some s \<and> sp self = Some p \<and> ft_axes self = Some axes \<and>
     NdCPUorder self = Some n_order \<and> KdCPUorder self = Some k_order \<and>
     forward fd self x =
       Inr \<lparr>shape = M # t, adtype = result_type (sdtype p) (fd (dtype self)),
            ravel = forward_data (ravel s) n_order k_order (K @ t) axes p (prod_list t) (ravel x)\<rparr>"
proof -
  from pl obtain s p axes n_order k_order where a:
    "length t \<le> 1" "length N = length K" "K \<noteq> []"
    "batch self = Some (prod_list t)" "multi_Nd self = Some (N @ t)"
    "multi_Kd self = Some (K @ t)" "multi_M self = Some (M # t)"
    "multi_prodKd self = Some (map Some (prod_list K # t))"
    "sn self = Some s" "shape s = N @ map (\<lambda>_. 1) t" "adtype s = dtype self"
    "length (ravel s) = prod_list N"
    "sp self = Some p" "spH self = Some (getH p)" "nrows p = M" "ncols p = prod_list K"
    "matrix_ok p"
    "ft_axes self = Some axes" "\<forall>ax \<in> set axes. ax < length K \<and> K ! ax \<noteq> 0"
    "NdCPUorder self = Some n_order" "KdCPUorder self = Some k_order"
    "length n_order = length k_order" "\<forall>i \<in> set n_order. i < prod_list N"
    "\<forall>i \<in> set k_order. i < prod_list K"
    by (rule planned_attrs)
  let ?b = "prod_list t"
  let ?xx = "\<lparr>shape = N @ t, adtype = result_type (adtype x) (adtype s),
              ravel = scale_data ?b (ravel s) (ravel x)\<rparr>"
  let ?sc = "copy_pairs (index_pairs k_order n_order ?b [0..<?b]) (ravel ?xx)
               (replicate (prod_list (K @ t)) 0)"
  let ?ox = "\<lparr>shape = K @ t, adtype = dtype self, ravel = ?sc\<rparr>"
  let ?k = "\<lparr>shape = K @ t, adtype = fd (dtype self),
             ravel = foldr (fft_axis (K @ t)) axes ?sc\<rparr>"
  have 1: "x2xx self x = Inr ?xx"
    using a x by (intro x2xx_planned) simp_all
  have 2: "xx2k_scatter self ?xx = Inr ?ox"
    using a x by (intro xx2k_scatter_planned[where N = N]) simp_all
  have 3: "fftn fd ?ox axes = Inr ?k"
    using fftn_ok[of axes ?ox fd] axes_ok[OF a(19), of t] by simp
  have len: "length (ravel ?k) = prod_list K * ?b"
    using length_foldr_axes[where f = "fft_axis (K @ t)" and s = "K @ t" and axes = axes and v = ?sc]
      axes_ok[OF a(19), of t] by (simp add: length_fft_axis)
  have 4: "k2y self ?k = Inr \<lparr>shape = nrows p # t, adtype = result_type (sdtype p) (adtype ?k),
                          ravel = spmm p ?b (ravel ?k)\<rparr>"
    using a len by (intro k2y_planned[where K = K]) simp_all
  have "forward fd self x =
       Inr \<lparr>shape = M # t, adtype = result_type (sdtype p) (fd (dtype self)),
            ravel = forward_data (ravel s) n_order k_order (K @ t) axes p ?b (ravel x)\<rparr>"
    using 1 2 3 4 a(15,18) by (simp add: forward_def xx2k_def forward_data_def)
  then show ?thesis using a by blast
qed

lemma adjoint_planned:
  assumes pl: "planned self N K M t"
    and y: "shape y = M # t"
  shows "\<exists>s p axes n_order k_order.
     sn self = Some s \<and> sp self = Some p \<and> ft_axes self = Some axes \<and>
     NdCPUorder self = Some n_order \<and> KdCPUorder self = Some k_order \<and>
     adjoint fd self y =
       Inr \<lparr>shape = N @ t, adtype = dtype self,
            ravel = adjoint_data (ravel s) n_order k_order (N @ t) (K @ t) axes p (prod_list t)
                      (ravel y)\<rparr>"
proof -
  from pl obtain s p axes n_order k_order where a:
    "length t \<le> 1" "length N = length K" "K \<noteq> []"
    "batch self = Some (prod_list t)" "multi_Nd self = Some (N @ t)"
    "multi_Kd self = Some (K @ t)" "multi_M self = Some (M # t)"
    "multi_prodKd self = Some (map Some (prod_list K # t))"
    "sn self = Some s" "shape s = N @ map (\<lambda>_. 1) t" "adtype s = dtype self"
    "length (ravel s) = prod_list N"
    "sp self = Some p" "spH self = Some (getH p)" "nrows p = M" "ncols p = prod_list K"
    "matrix_ok p"
    "ft_axes self = Some axes" "\<forall>ax \<in> set axes. ax < length K \<and> K ! ax \<noteq> 0"
    "NdCPUorder self = Some n_order" "KdCPUorder self = Some k_order"
    "length n_order = length k_order" "\<forall>i \<in> set n_order. i < prod_list N"
    "\<forall>i \<in> set k_order. i < prod_list K"
    by (rule planned_attrs)
  let ?b = "prod_list t"
  let ?k = "\<lparr>shape = K @ t, adtype = result_type (sdtype p) (adtype y),
             ravel = spmm (getH p) ?b (ravel y)\<rparr>"
  let ?iv = "foldr (ifft_axis (K @ t)) axes (ravel ?k)"
  let ?k' = "\<lparr>shape = K @ t, adtype = fd (adtype ?k), ravel = ?iv\<rparr>"
  let ?g = "copy_pairs (index_pairs n_order k_order ?b [0..<?b]) ?iv (replicate (prod_list (N @ t)) 0)"
  let ?xx = "\<lparr>shape = N @ t, adtype = dtype self, ravel = ?g\<rparr>"
  have 1: "y2k self y = Inr ?k"
    using a y by (intro y2k_planned) simp_all
  have 2: "ifftn fd ?k axes = Inr ?k'"
    using ifftn_ok[of axes ?k fd] axes_ok[OF a(19), of t] by simp
  have len: "length ?iv = prod_list K * ?b"
    using length_foldr_axes[where f = "ifft_axis (K @ t)" and s = "K @ t" and axes = axes
        and v = "ravel ?k"] axes_ok[OF a(19), of t] a(16)
    by (simp add: length_ifft_axis)
  have 3: "k2xx_gather self ?k' = Inr ?xx"
    using k2xx_gather_planned[where self = self and N = N and t = t and n_order = n_order
        and k_order = k_order and K = K and k = ?k'] a len by simp
  have 4: "x2xx self ?xx = Inr \<lparr>shape = N @ t, adtype = result_type (adtype ?xx) (adtype s),
                            ravel = scale_data ?b (ravel s) (ravel ?xx)\<rparr>"
    using a by (intro x2xx_planned) simp_all
  have "adjoint fd self y =
       Inr \<lparr>shape = N @ t, adtype = dtype self,
            ravel = adjoint_data (ravel s) n_order k_order (N @ t) (K @ t) axes p ?b (ravel y)\<rparr>"
    using 1 2 3 4 a(11,18) by (simp add: adjoint_def k2xx_def xx2x_def adjoint_data_def)
  then show ?thesis using a by blast
qed

section \<open>Linearity of the stages\<close>

lemma length_lincomb [simp]: "length (lincomb a u b v) = min (length u) (length v)"
  by (simp add: lincomb_def)

lemma lincomb_nth:
  "i < length u \<Longrightarrow> i < length v \<Longrightarrow> lincomb a u b v ! i = a * u ! i + b * v ! i"
  by (simp add: lincomb_def)

lemma lincomb_replicate: "lincomb a (replicate n x) b (replicate n y) = replicate n (a * x + b * y)"
  by (simp add: lincomb_def map_replicate_const)

lemma lincomb_zero [simp]: "lincomb 0 u 0 v = replicate (min (length u) (length v)) 0"
  by (rule nth_equalityI) (simp_all add: lincomb_nth)

lemma lincomb_append:
  "length u = length v \<Longrightarrow> lincomb a (u @ u') b (v @ v') = lincomb a u b v @ lincomb a u' b v'"
  by (simp add: lincomb_def)

lemma lincomb_update:
  "length u = length v \<Longrightarrow>
   (lincomb a u b v)[i := a * x + b * y] = lincomb a (u[i := x]) b (v[i := y])"
proof (rule nth_equalityI)
  fix j assume "j < length ((lincomb a u b v)[i := a * x + b * y])"
  moreover assume "length u = length v"
  ultimately show "(lincomb a u b v)[i := a * x + b * y] ! j =
      lincomb a (u[i := x]) b (v[i := y]) ! j"
    by (cases "j = i") (simp_all add: lincomb_nth)
qed simp

lemma lincomb_take: "take n (lincomb a u b v) = lincomb a (take n u) b (take n v)"
  by (simp add: lincomb_def take_map take_zip)

lemma lincomb_drop: "drop n (lincomb a u b v) = lincomb a (drop n u) b (drop n v)"
  by (simp add: lincomb_def drop_map drop_zip)

lemma lincomb_map:
  "lincomb a (map f xs) b (map g xs) = map (\<lambda>x. a * f x + b * g x) xs"
  by (induction xs) (simp_all add: lincomb_def)

lemma lincomb_concat:
  "(\<And>i. i < d \<Longrightarrow> length (F i) = length (G i)) \<Longrightarrow>
   lincomb a (concat (map F [0..<d])) b (concat (map G [0..<d])) =
     concat (map (\<lambda>i. lincomb a (F i) b (G i)) [0..<d])"
proof (induction d)
  case 0
  then show ?case by (simp add: lincomb_def)
next
  case (Suc d)
  have "length (concat (map F [0..<d])) = length (concat (map G [0..<d]))"
    using Suc.prems by (induction d) simp_all
  then show ?case using Suc by (simp add: lincomb_append)
qed

lemma linear_mapI:
  assumes "\<And>u. length u = n \<Longrightarrow> length (f u) = m"
    and "\<And>a b u v. length u = n \<Longrightarrow> length v = n \<Longrightarrow> f (lincomb a u b v) = lincomb a (f u) b (f v)"
  shows "linear_map n m f"
  using assms by (simp add: linear_map_def)

lemma linear_map_length: "linear_map n m f \<Longrightarrow> length u = n \<Longrightarrow> length (f u) = m"
  by (simp add: linear_map_def)

lemma linear_map_lincomb:
  "linear_map n m f \<Longrightarrow> length u = n \<Longrightarrow> length v = n \<Longrightarrow>
   f (lincomb a u b v) = lincomb a (f u) b (f v)"
  by (simp add: linear_map_def)

lemma linear_map_comp:
  "linear_map n m f \<Longrightarrow> linear_map m k g \<Longrightarrow> linear_map n k (\<lambda>u. g (f u))"
  by (simp add: linear_map_def)

lemma linear_map_zero:
  assumes "linear_map n m f"
  shows "f (replicate n 0) = replicate m 0"
proof -
  have "f (lincomb 0 (replicate n 0) 0 (replicate n 0)) =
        lincomb 0 (f (replicate n 0)) 0 (f (replicate n 0))"
    using assms by (intro linear_map_lincomb) simp_all
  then show ?thesis using linear_map_length[OF assms, of "replicate n 0"] by simp
qed

lemma linear_map_scale: "linear_map n n (scale_data b s)"
proof (rule linear_mapI)
  fix a c :: complex and u v :: "complex list"
  assume "length u = n" "length v = n"
  then show "scale_data b s (lincomb a u c v) = lincomb a (scale_data b s u) c (scale_data b s v)"
    by (simp add: scale_data_def lincomb_map lincomb_nth algebra_simps cong: map_cong)
qed simp

lemma copy_pairs_lincomb:
  assumes "\<forall>(d, s) \<in> set T. s < n" "length u = n" "length v = n"
  shows "length b1 = length b2 \<Longrightarrow>
     copy_pairs T (lincomb a u c v) (lincomb a b1 c b2) =
       lincomb a (copy_pairs T u b1) c (copy_pairs T v b2)"
  using assms(1)
proof (induction T arbitrary: b1 b2)
  case Nil
  then show ?case by (simp add: copy_pairs_def)
next
  case (Cons e T)
  obtain d s where e: "e = (d, s)" by (cases e)
  with Cons.prems have s: "s < n" by simp
  have step: "(lincomb a b1 c b2)[d := lincomb a u c v ! s] =
              lincomb a (b1[d := u ! s]) c (b2[d := v ! s])"
    using s assms(2,3) Cons.prems(1) by (simp add: lincomb_nth lincomb_update)
  have "copy_pairs T (lincomb a u c v) (lincomb a (b1[d := u ! s]) c (b2[d := v ! s])) =
        lincomb a (copy_pairs T u (b1[d := u ! s])) c (copy_pairs T v (b2[d := v ! s]))"
    using Cons.prems by (intro Cons.IH) simp_all
  then show ?case by (simp add: copy_pairs_def e step)
qed

lemma index_pairs_range:
  assumes "\<forall>i \<in> set sidx. i < n" "\<forall>i \<in> set dst. i < k" "\<forall>bat \<in> set bats. bat < b"
  shows "\<forall>(d, s) \<in> set (index_pairs dst sidx b bats). d < k * b \<and> s < n * b"
proof (clarify)
  fix d s assume "(d, s) \<in> set (index_pairs dst sidx b bats)"
  then obtain bat where bat: "bat \<in> set bats"
    and z: "(d, s) \<in> set (zip (map (\<lambda>i. i * b + bat) dst) (map (\<lambda>i. i * b + bat) sidx))"
    by (auto simp: index_pairs_def)
  from z have "d \<in> set (map (\<lambda>i. i * b + bat) dst)" "s \<in> set (map (\<lambda>i. i * b + bat) sidx)"
    by (auto dest: set_zip_leftD set_zip_rightD)
  then obtain i j where "i \<in> set dst" "d = i * b + bat" "j \<in> set sidx" "s = j * b + bat"
    by auto
  then show "d < k * b \<and> s < n * b"
    using assms bat by (auto intro: grid_index_less)
qed

lemma sum_list_lincomb:
  fixes f g :: "'a \<Rightarrow> complex"
  shows "(\<Sum>x\<leftarrow>xs. a * f x + c * g x) = a * (\<Sum>x\<leftarrow>xs. f x) + c * (\<Sum>x\<leftarrow>xs. g x)"
  by (induction xs) (simp_all add: algebra_simps)

lemma linear_map_dft_lead: "linear_map (n * m) (n * m) (dft_lead sg n m)"
proof (rule linear_mapI)
  fix a c :: complex and u v :: "complex list"
  assume len: "length u = n * m" "length v = n * m"
  have cell: "(\<Sum>j\<leftarrow>[0..<n]. omega sg n (k * j) * lincomb a u c v ! (j * m + r)) =
        a * (\<Sum>j\<leftarrow>[0..<n]. omega sg n (k * j) * u ! (j * m + r)) +
        c * (\<Sum>j\<leftarrow>[0..<n]. omega sg n (k * j) * v ! (j * m + r))" if r: "r < m" for k r
  proof -
    have "(\<Sum>j\<leftarrow>[0..<n]. omega sg n (k * j) * lincomb a u c v ! (j * m + r)) =
          (\<Sum>j\<leftarrow>[0..<n]. a * (omega sg n (k * j) * u ! (j * m + r)) +
                           c * (omega sg n (k * j) * v ! (j * m + r)))"
    proof (rule arg_cong[where f = sum_list], rule map_cong[OF refl])
      fix j assume "j \<in> set [0..<n]"
      then have "j * m + r < n * m" using r by (auto intro: grid_index_less)
      then show "omega sg n (k * j) * lincomb a u c v ! (j * m + r) =
                 a * (omega sg n (k * j) * u ! (j * m + r)) + c * (omega sg n (k * j) * v ! (j * m + r))"
        using len by (simp add: lincomb_nth algebra_simps)
    qed
    then show ?thesis by (simp add: sum_list_lincomb)
  qed
  have "dft_lead sg n m (lincomb a u c v) =
        concat (map (\<lambda>k. map (\<lambda>r. a * (\<Sum>j\<leftarrow>[0..<n]. omega sg n (k * j) * u ! (j * m + r)) +
                                    c * (\<Sum>j\<leftarrow>[0..<n]. omega sg n (k * j) * v ! (j * m + r)))
                              [0..<m]) [0..<n])"
    unfolding dft_lead_def
    by (intro arg_cong[where f = concat] map_cong refl) (simp add: cell)
  also have "\<dots> = lincomb a (dft_lead sg n m u) c (dft_lead sg n m v)"
    unfolding dft_lead_def by (simp add: lincomb_concat lincomb_map)
  finally show "dft_lead sg n m (lincomb a u c v) =
      lincomb a (dft_lead sg n m u) c (dft_lead sg n m v)" .
qed simp

lemma linear_map_dft_axis:
  "ax < length s \<Longrightarrow> linear_map (prod_list s) (prod_list s) (dft_axis sg s ax)"
proof (induction s arbitrary: ax)
  case Nil
  then show ?case by simp
next
  case (Cons d ds)
  show ?case
  proof (cases ax)
    case 0
    then show ?thesis
      using linear_map_dft_lead[of d "prod_list ds" sg] by (simp add: linear_map_def)
  next
    case (Suc ax')
    let ?m = "prod_list ds"
    let ?g = "dft_axis sg ds ax'"
    have g: "linear_map ?m ?m ?g" using Cons.prems Suc by (intro Cons.IH) simp
    have blk: "length (take ?m (drop (i * ?m) u)) = ?m" if "i < d" "length u = d * ?m"
      for i and u :: "complex list"
      using block_fits[OF that(1), of ?m] that(2) by (intro length_block) simp
    show ?thesis
    proof (rule linear_mapI)
      fix u :: "complex list" assume "length u = prod_list (d # ds)"
      then show "length (dft_axis sg (d # ds) ax u) = prod_list (d # ds)"
        using Cons.prems by (intro length_dft_axis) simp_all
    next
      fix a c :: complex and u v :: "complex list"
      assume len: "length u = prod_list (d # ds)" "length v = prod_list (d # ds)"
      have "concat (map (\<lambda>i. ?g (take ?m (drop (i * ?m) (lincomb a u c v)))) [0..<d]) =
            concat (map (\<lambda>i. lincomb a (?g (take ?m (drop (i * ?m) u))) c
                                 (?g (take ?m (drop (i * ?m) v)))) [0..<d])"
      proof (rule arg_cong[where f = concat], rule map_cong[OF refl])
        fix i assume "i \<in> set [0..<d]"
        then have i: "i < d" by simp
        show "?g (take ?m (drop (i * ?m) (lincomb a u c v))) =
              lincomb a (?g (take ?m (drop (i * ?m) u))) c (?g (take ?m (drop (i * ?m) v)))"
          using linear_map_lincomb[OF g blk[OF i] blk[OF i], of u v a c] len
          by (simp add: lincomb_take lincomb_drop)
      qed
      also have "\<dots> = lincomb a (concat (map (\<lambda>i. ?g (take ?m (drop (i * ?m) u))) [0..<d])) c
                            (concat (map (\<lambda>i. ?g (take ?m (drop (i * ?m) v))) [0..<d]))"
      proof (rule lincomb_concat[symmetric])
        fix i assume i: "i < d"
        show "length (?g (take ?m (drop (i * ?m) u))) = length (?g (take ?m (drop (i * ?m) v)))"
          using linear_map_length[OF g blk[OF i]] len by simp
      qed
      finally show "dft_axis sg (d # ds) ax (lincomb a u c v) =
          lincomb a (dft_axis sg (d # ds) ax u) c (dft_axis sg (d # ds) ax v)"
        by (simp add: Suc)
    qed
  qed
qed

lemma linear_map_divide: "linear_map n n (map (\<lambda>z. z / c))"
proof (rule linear_mapI)
  fix a b :: complex and u v :: "complex list"
  assume "length u = n" "length v = n"
  then show "map (\<lambda>z. z / c) (lincomb a u b v) = lincomb a (map (\<lambda>z. z / c) u) b (map (\<lambda>z. z / c) v)"
    by (intro nth_equalityI) (simp_all add: lincomb_nth add_divide_distrib)
qed simp

lemma linear_map_fft_axis:
  "ax < length s \<Longrightarrow> linear_map (prod_list s) (prod_list s) (fft_axis s ax)"
  unfolding fft_axis_def by (rule linear_map_dft_axis)

lemma linear_map_ifft_axis:
  assumes "ax < length s"
  shows "linear_map (prod_list s) (prod_list s) (ifft_axis s ax)"
proof -
  have "linear_map (prod_list s) (prod_list s)
          (\<lambda>u. map (\<lambda>z. z / of_nat (s ! ax)) (dft_axis 1 s ax u))"
    by (rule linear_map_comp[OF linear_map_dft_axis[OF assms] linear_map_divide])
  then show ?thesis by (simp add: ifft_axis_def[abs_def])
qed

lemma linear_map_foldr:
  assumes "\<And>ax. ax \<in> set axes \<Longrightarrow> linear_map n n (f ax)"
  shows "linear_map n n (foldr f axes)"
  using assms
proof (induction axes)
  case Nil
  then show ?case by (simp add: linear_map_def)
next
  case (Cons ax axes)
  have "linear_map n n (\<lambda>u. f ax (foldr f axes u))"
    by (rule linear_map_comp[where m = n and f = "foldr f axes" and g = "f ax"])
       (use Cons in simp_all)
  then show ?case by (simp add: comp_def)
qed

lemma linear_map_spmm:
  assumes ok: "matrix_ok A"
  shows "linear_map (ncols A * b) (nrows A * b) (spmm A b)"
proof (rule linear_mapI)
  fix a c :: complex and u v :: "complex list"
  assume len: "length u = ncols A * b" "length v = ncols A * b"
  have cell: "(\<Sum>(r, q, x)\<leftarrow>filter (\<lambda>(r, q, x). r = m) (entries A). x * lincomb a u c v ! (q * b + j)) =
        a * (\<Sum>(r, q, x)\<leftarrow>filter (\<lambda>(r, q, x). r = m) (entries A). x * u ! (q * b + j)) +
        c * (\<Sum>(r, q, x)\<leftarrow>filter (\<lambda>(r, q, x). r = m) (entries A). x * v ! (q * b + j))"
    if j: "j < b" for m j
  proof -
    have "(\<Sum>(r, q, x)\<leftarrow>filter (\<lambda>(r, q, x). r = m) (entries A). x * lincomb a u c v ! (q * b + j)) =
          (\<Sum>e\<leftarrow>filter (\<lambda>(r, q, x). r = m) (entries A).
              a * (case e of (r, q, x) \<Rightarrow> x * u ! (q * b + j)) +
              c * (case e of (r, q, x) \<Rightarrow> x * v ! (q * b + j)))"
    proof (rule arg_cong[where f = sum_list], rule map_cong[OF refl])
      fix e assume "e \<in> set (filter (\<lambda>(r, q, x). r = m) (entries A))"
      then have mem: "e \<in> set (entries A)" by simp
      obtain r q x where e: "e = (r, q, x)" by (cases e)
      have "q < ncols A" using mem ok e by (auto simp: matrix_ok_def)
      then have "q * b + j < ncols A * b" using j by (rule grid_index_less)
      then show "(case e of (r, q, x) \<Rightarrow> x * lincomb a u c v ! (q * b + j)) =
            a * (case e of (r, q, x) \<Rightarrow> x * u ! (q * b + j)) +
            c * (case e of (r, q, x) \<Rightarrow> x * v ! (q * b + j))"
        using len by (simp add: e lincomb_nth algebra_simps)
    qed
    then show ?thesis by (simp add: sum_list_lincomb)
  qed
  have "spmm A b (lincomb a u c v) =
        concat (map (\<lambda>m. map (\<lambda>j.
            a * (\<Sum>(r, q, x)\<leftarrow>filter (\<lambda>(r, q, x). r = m) (entries A). x * u ! (q * b + j)) +
            c * (\<Sum>(r, q, x)\<leftarrow>filter (\<lambda>(r, q, x). r = m) (entries A). x * v ! (q * b + j)))
              [0..<b]) [0..<nrows A])"
    unfolding spmm_def
    by (intro arg_cong[where f = concat] map_cong refl) (simp add: cell)
  also have "\<dots> = lincomb a (spmm A b u) c (spmm A b v)"
    unfolding spmm_def by (simp add: lincomb_concat lincomb_map)
  finally show "spmm A b (lincomb a u c v) = lincomb a (spmm A b u) c (spmm A b v)" .
qed simp

lemma linear_map_scatter:
  assumes "\<forall>(d, s) \<in> set T. s < n"
  shows "linear_map n k (\<lambda>u. copy_pairs T u (replicate k 0))"
proof (rule linear_mapI)
  fix a c :: complex and u v :: "complex list"
  assume len: "length u = n" "length v = n"
  have "copy_pairs T (lincomb a u c v) (lincomb a (replicate k 0) c (replicate k 0)) =
        lincomb a (copy_pairs T u (replicate k 0)) c (copy_pairs T v (replicate k 0))"
    using assms len by (intro copy_pairs_lincomb[where n = n]) simp_all
  then show "copy_pairs T (lincomb a u c v) (replicate k 0) =
        lincomb a (copy_pairs T u (replicate k 0)) c (copy_pairs T v (replicate k 0))"
    by (simp add: lincomb_replicate)
qed simp

lemma pairs_src_range:
  assumes "\<forall>i \<in> set sidx. i < n" "\<forall>i \<in> set dst. i < k"
  shows "\<forall>(d, s) \<in> set (index_pairs dst sidx b [0..<b]). s < n * b"
  using index_pairs_range[OF assms, of "[0..<b]" b] by auto

lemma linear_map_forward_data:
  assumes "\<forall>i \<in> set n_order. i < n" "\<forall>i \<in> set k_order. i < prod_list K"
    and "matrix_ok p" "ncols p = prod_list K"
    and "\<forall>ax \<in> set axes. ax < length (K @ t)" "b = prod_list t"
  shows "linear_map (n * b) (nrows p * b) (forward_data s n_order k_order (K @ t) axes p b)"
proof -
  have 1: "linear_map (n * b) (n * b) (scale_data b s)" by (rule linear_map_scale)
  have 2: "linear_map (n * b) (prod_list (K @ t))
             (\<lambda>u. copy_pairs (index_pairs k_order n_order b [0..<b]) u (replicate (prod_list (K @ t)) 0))"
    by (rule linear_map_scatter) (rule pairs_src_range[OF assms(1,2)])
  have 3: "linear_map (prod_list (K @ t)) (prod_list (K @ t)) (foldr (fft_axis (K @ t)) axes)"
    by (rule linear_map_foldr) (rule linear_map_fft_axis, use assms(5) in blast)
  have 4: "linear_map (prod_list (K @ t)) (nrows p * b) (spmm p b)"
    using linear_map_spmm[OF assms(3), of b] assms(4,6) by simp
  have "linear_map (n * b) (nrows p * b)
     (\<lambda>u. spmm p b (foldr (fft_axis (K @ t)) axes
        (copy_pairs (index_pairs k_order n_order b [0..<b]) (scale_data b s u)
           (replicate (prod_list (K @ t)) 0))))"
    by (rule linear_map_comp[OF linear_map_comp[OF linear_map_comp[OF 1 2] 3] 4])
  then show ?thesis by (simp add: forward_data_def[abs_def])
qed

lemma linear_map_adjoint_data:
  assumes "\<forall>i \<in> set n_order. i < n" "\<forall>i \<in> set k_order. i < prod_list K"
    and "matrix_ok p" "ncols p = prod_list K"
    and "\<forall>ax \<in> set axes. ax < length (K @ t)" "b = prod_list t" "prod_list nshape = n * b"
  shows "linear_map (nrows p * b) (n * b) (adjoint_data s n_order k_order nshape (K @ t) axes p b)"
proof -
  have 1: "linear_map (nrows p * b) (prod_list (K @ t)) (spmm (getH p) b)"
    using linear_map_spmm[OF matrix_ok_getH[OF assms(3)], of b] assms(4,6) by simp
  have 2: "linear_map (prod_list (K @ t)) (prod_list (K @ t)) (foldr (ifft_axis (K @ t)) axes)"
    by (rule linear_map_foldr) (rule linear_map_ifft_axis, use assms(5) in blast)
  have 3: "linear_map (prod_list (K @ t)) (n * b)
             (\<lambda>u. copy_pairs (index_pairs n_order k_order b [0..<b]) u (replicate (n * b) 0))"
    by (rule linear_map_scatter) (use pairs_src_range[OF assms(2,1), of b] assms(6) in simp)
  have 4: "linear_map (n * b) (n * b) (scale_data b s)" by (rule linear_map_scale)
  have "linear_map (nrows p * b) (n * b)
     (\<lambda>u. scale_data b s (copy_pairs (index_pairs n_order k_order b [0..<b])
              (foldr (ifft_axis (K @ t)) axes (spmm (getH p) b u)) (replicate (n * b) 0)))"
    by (rule linear_map_comp[OF linear_map_comp[OF linear_map_comp[OF 1 2] 3] 4])
  then show ?thesis by (simp add: adjoint_data_def[abs_def] assms(7))
qed

section \<open>C2: the fused chain and the composition\<close>

text \<open>
  C2. \<open>selfadjoint(x)\<close> is \<open>adjoint(forward(x))\<close>, and the chain \<open>k2y2k\<close> is
  \<open>y2k\<close> after \<open>k2y\<close>, for every object and every input, exceptions included: in
  \<open>NUFFT_cpu\<close> both sides run the same stages in the same order. In the class
  \<open>NUFFT\<close>, where \<open>k2y2k\<close> multiplies by the matrix \<open>spHsp\<close> that
  \<open>_precompute_sp\<close> computes from \<open>st['p']\<close>, the two agree over exact arithmetic.
\<close>

theorem selfadjoint_consistency:
  "selfadjoint fd self x = ebind (forward fd self x) (adjoint fd self) \<and>
   k2y2k self k = ebind (k2y self k) (y2k self) \<and>
   (t_st self0 = Some d \<and> st_p d = Some p \<and> matrix_ok p \<and>
    NUFFT_precompute_sp self0 = (Inr (), selfT) \<longrightarrow>
    NUFFT_k2y2k selfT k' = ebind (NUFFT_k2y selfT k') (NUFFT_y2k selfT))"
proof (intro conjI impI)
  show "selfadjoint fd self x = ebind (forward fd self x) (adjoint fd self)"
    by (simp add: selfadjoint_def forward_def adjoint_fun k2y2k_def k2y_def y2k_fun
        ebind_assoc)
  show "k2y2k self k = ebind (k2y self k) (y2k self)"
    by (simp add: k2y2k_def k2y_def y2k_fun ebind_assoc)
next
  assume a: "t_st self0 = Some d \<and> st_p d = Some p \<and> matrix_ok p \<and>
    NUFFT_precompute_sp self0 = (Inr (), selfT)"
  then obtain C where C: "sp_matmul (getH p) p = Inr C"
    and T: "selfT = self0\<lparr>t_sp := Some p, t_spH := Some (getH p), t_spHsp := Some C\<rparr>"
    by (auto simp: NUFFT_precompute_sp_def Let_def split: sum.splits)
  show "NUFFT_k2y2k selfT k' = ebind (NUFFT_k2y selfT k') (NUFFT_y2k selfT)"
    by (rule NUFFT_k2y2k_composition[where p = p and C = C]) (use a C T in simp_all)
qed

lemma demo_T_eq:
  "NUFFT_precompute_sp demo_T0 = (Inr (), demo_T)"
  by (simp add: demo_T_def NUFFT_precompute_sp_def demo_T0_def demo_st_def sp_matmul_def
      getH_def demo_p_def Let_def)

theorem selfadjoint_consistency_witness:
  "t_st demo_T0 = Some demo_st \<and> st_p demo_st = Some demo_p \<and> matrix_ok demo_p \<and>
   NUFFT_precompute_sp demo_T0 = (Inr (), demo_T) \<and>
   selfadjoint id demo_op demo_x = ebind (forward id demo_op demo_x) (adjoint id demo_op) \<and>
   k2y2k demo_op demo_k = ebind (k2y demo_op demo_k) (y2k demo_op) \<and>
   NUFFT_k2y2k demo_T demo_k = ebind (NUFFT_k2y demo_T demo_k) (NUFFT_y2k demo_T)"
proof -
  have h: "t_st demo_T0 = Some demo_st \<and> st_p demo_st = Some demo_p \<and> matrix_ok demo_p \<and>
    NUFFT_precompute_sp demo_T0 = (Inr (), demo_T)"
    by (simp add: demo_T_eq) (simp add: demo_T0_def demo_st_def matrix_ok_def demo_p_def)
  show ?thesis
    using h selfadjoint_consistency[of id demo_op demo_x demo_k demo_T0 demo_st demo_p demo_T demo_k]
    by blast
qed

section \<open>Reorder tables: \<open>preindex_copy\<close> and the copy loops\<close>

lemma length_block_index:
  "length c = length f \<Longrightarrow> length (block_index c f) = prod_list c"
proof (induction c f rule: block_index.induct)
  case (1 c cs f fs)
  then show ?case by (simp add: length_concat_const)
qed simp_all

lemma block_index_range:
  "list_all2 (\<le>) c f \<Longrightarrow> \<forall>i \<in> set (block_index c f). i < prod_list f"
proof (induction c arbitrary: f)
  case Nil
  then show ?case by simp
next
  case (Cons c cs)
  then obtain g fs where f: "f = g # fs" and le: "c \<le> g" and rest: "list_all2 (\<le>) cs fs"
    by (cases f) auto
  have IH: "\<forall>r \<in> set (block_index cs fs). r < prod_list fs" by (rule Cons.IH[OF rest])
  show ?case
  proof
    fix x assume "x \<in> set (block_index (c # cs) f)"
    then obtain i r where i: "i < c" and r: "r \<in> set (block_index cs fs)"
      and x: "x = (i + (g - c) div 2) * prod_list fs + r" by (auto simp: f)
    have "i + (g - c) div 2 < g" using i le by linarith
    then show "x < prod_list f"
      using IH r x by (simp add: f grid_index_less)
  qed
qed

lemma distinct_shifted_blocks:
  assumes "distinct B" "\<forall>r \<in> set B. r < P"
  shows "distinct (concat (map (\<lambda>i. map (\<lambda>r. (i + off) * P + r) B) [0..<c]))"
proof (induction c)
  case 0
  then show ?case by simp
next
  case (Suc c)
  have last: "distinct (map (\<lambda>r. (c + off) * P + r) B)"
    using assms(1) by (simp add: distinct_map inj_on_def)
  have disj: "set (concat (map (\<lambda>i. map (\<lambda>r. (i + off) * P + r) B) [0..<c])) \<inter>
              set (map (\<lambda>r. (c + off) * P + r) B) = {}"
  proof -
    have "x < (c + off) * P" if "x \<in> set (concat (map (\<lambda>i. map (\<lambda>r. (i + off) * P + r) B) [0..<c]))" for x
    proof -
      from that obtain i r where "i < c" "r \<in> set B" "x = (i + off) * P + r" by auto
      then show ?thesis using assms(2) by (auto intro: grid_index_less)
    qed
    moreover have "(c + off) * P \<le> x" if "x \<in> set (map (\<lambda>r. (c + off) * P + r) B)" for x
      using that by auto
    ultimately show ?thesis by fastforce
  qed
  show ?case using Suc last disj by simp
qed

lemma distinct_block_index:
  "list_all2 (\<le>) c f \<Longrightarrow> distinct (block_index c f)"
proof (induction c arbitrary: f)
  case Nil
  then show ?case by simp
next
  case (Cons c cs)
  then obtain g fs where f: "f = g # fs" and rest: "list_all2 (\<le>) cs fs"
    by (cases f) auto
  have "distinct (block_index cs fs)" "\<forall>r \<in> set (block_index cs fs). r < prod_list fs"
    using Cons.IH[OF rest] block_index_range[OF rest] by simp_all
  then show ?case by (simp add: f distinct_shifted_blocks)
qed

lemma concat_rows_upt: "concat (map (\<lambda>i. map (\<lambda>r. i * P + r) [0..<P]) [0..<c]) = [0..<c * P]"
proof (rule nth_equalityI)
  fix i assume "i < length (concat (map (\<lambda>i. map (\<lambda>r. i * P + r) [0..<P]) [0..<c]))"
  then have i: "i < c * P" by simp
  then have P: "0 < P" by (cases P) simp_all
  have "i div P < c" using i by (simp add: less_mult_imp_div_less)
  moreover have "i mod P < P" using P by simp
  ultimately have "concat (map (\<lambda>i. map (\<lambda>r. i * P + r) [0..<P]) [0..<c]) ! (i div P * P + i mod P) =
      i div P * P + i mod P"
    by (rule concat_grid_nth)
  then show "concat (map (\<lambda>i. map (\<lambda>r. i * P + r) [0..<P]) [0..<c]) ! i = [0..<c * P] ! i"
    using i by simp
qed simp

lemma block_index_same: "block_index c c = [0..<prod_list c]"
proof (induction c)
  case Nil
  then show ?case by simp
next
  case (Cons a c)
  then show ?case by (simp add: concat_rows_upt)
qed

lemma map2_min_le: "list_all2 (\<le>) N K \<Longrightarrow> map2 min N K = N"
  by (induction rule: list_all2_induct) (simp_all add: min_def)

lemma preindex_copy_le:
  "list_all2 (\<le>) N K \<Longrightarrow>
   preindex_copy N K = ([0..<prod_list N], block_index N K, prod_list N)"
  by (simp add: preindex_copy_def map2_min_le block_index_same)

lemma preindex_copy_tables_ok:
  assumes "list_all2 (\<le>) N K"
  shows "tables_ok N K (preindex_copy N K)"
  using assms block_index_range[OF assms] list_all2_lengthD[OF assms]
  by (simp add: preindex_copy_le tables_ok_def length_block_index)

lemma copy_pairs_other:
  "p \<notin> fst ` set T \<Longrightarrow> copy_pairs T src buf ! p = buf ! p"
  unfolding copy_pairs_def by (induction T arbitrary: buf) auto

lemma copy_pairs_written:
  "distinct (map fst T) \<Longrightarrow> (d, s) \<in> set T \<Longrightarrow> d < length buf \<Longrightarrow>
   copy_pairs T src buf ! d = src ! s"
proof (induction T arbitrary: buf)
  case Nil
  then show ?case by simp
next
  case (Cons e T)
  obtain d' s' where e: "e = (d', s')" by (cases e)
  show ?case
  proof (cases "(d, s) = e")
    case True
    then have "d \<notin> fst ` set T" using Cons.prems(1) e by auto
    then have "copy_pairs T src (buf[d := src ! s]) ! d = buf[d := src ! s] ! d"
      by (rule copy_pairs_other)
    then show ?thesis using True e Cons.prems(3) by (simp add: copy_pairs_def)
  next
    case False
    then have "(d, s) \<in> set T" using Cons.prems(2) by simp
    then have "copy_pairs T src (buf[d' := src ! s']) ! d = src ! s"
      using Cons.prems by (intro Cons.IH) simp_all
    then show ?thesis by (simp add: copy_pairs_def e)
  qed
qed

lemma split_position:
  fixes b :: nat
  assumes "i * b + bat = i' * b + bat'" "bat < b" "bat' < b"
  shows "i = i' \<and> bat = bat'"
proof -
  have "(i * b + bat) div b = i" "(i' * b + bat') div b = i'"
    "(i * b + bat) mod b = bat" "(i' * b + bat') mod b = bat'"
    using assms(2,3) by simp_all
  then show ?thesis using assms(1) by metis
qed

lemma distinct_positions:
  fixes b :: nat
  assumes "distinct idx" "distinct bats" "\<forall>bat \<in> set bats. bat < b"
  shows "distinct (concat (map (\<lambda>bat. map (\<lambda>i. i * b + bat) idx) bats))"
  using assms(2,3)
proof (induction bats)
  case Nil
  then show ?case by simp
next
  case (Cons bat bats)
  have "inj_on (\<lambda>i. i * b + bat) (set idx)"
  proof (rule inj_onI)
    fix x y assume "x * b + bat = y * b + bat"
    then show "x = y" using split_position[of x b bat y bat] Cons.prems(2) by simp
  qed
  then have 1: "distinct (map (\<lambda>i. i * b + bat) idx)"
    using assms(1) by (simp add: distinct_map)
  have 2: "set (map (\<lambda>i. i * b + bat) idx) \<inter>
           set (concat (map (\<lambda>bat. map (\<lambda>i. i * b + bat) idx) bats)) = {}"
  proof (rule ccontr)
    assume "\<not> ?thesis"
    then obtain i i' bat' where "bat' \<in> set bats" "i * b + bat = i' * b + bat'" by auto
    then show False using split_position[of i b bat i' bat'] Cons.prems by auto
  qed
  show ?case using Cons 1 2 by simp
qed

lemma map_fst_index_pairs:
  "length dst = length sidx \<Longrightarrow>
   map fst (index_pairs dst sidx b bats) = concat (map (\<lambda>bat. map (\<lambda>i. i * b + bat) dst) bats)"
  by (simp add: index_pairs_def map_concat comp_def)

lemma map_snd_index_pairs:
  "length dst = length sidx \<Longrightarrow>
   map snd (index_pairs dst sidx b bats) = concat (map (\<lambda>bat. map (\<lambda>i. i * b + bat) sidx) bats)"
  by (simp add: index_pairs_def map_concat comp_def)

lemma distinct_fst_index_pairs:
  "length dst = length sidx \<Longrightarrow> distinct dst \<Longrightarrow>
   distinct (map fst (index_pairs dst sidx b [0..<b]))"
  by (simp add: map_fst_index_pairs distinct_positions)

lemma index_pairs_member:
  assumes "length dst = length sidx" "j < length dst" "bat < b"
  shows "(dst ! j * b + bat, sidx ! j * b + bat) \<in> set (index_pairs dst sidx b [0..<b])"
proof -
  have "(dst ! j * b + bat, sidx ! j * b + bat) \<in>
        set (zip (map (\<lambda>i. i * b + bat) dst) (map (\<lambda>i. i * b + bat) sidx))"
    using assms(1,2) by (auto simp: set_zip intro!: exI[of _ j])
  then show ?thesis using assms(3) by (auto simp: index_pairs_def)
qed

lemma gather_scatter:
  assumes len: "length n_order = length k_order"
    and dn: "distinct n_order" and dk: "distinct k_order"
    and cover: "set n_order = {..<n}" and kr: "\<forall>i \<in> set k_order. i < k"
    and lu: "length u = n * b"
  shows "copy_pairs (index_pairs n_order k_order b [0..<b])
           (copy_pairs (index_pairs k_order n_order b [0..<b]) u (replicate (k * b) 0))
           (replicate (n * b) 0) = u"
proof (rule nth_equalityI)
  let ?S = "copy_pairs (index_pairs k_order n_order b [0..<b]) u (replicate (k * b) 0)"
  fix p assume "p < length (copy_pairs (index_pairs n_order k_order b [0..<b]) ?S (replicate (n * b) 0))"
  then have p: "p < n * b" by simp
  then have b: "0 < b" by (cases b) simp_all
  have "p div b < n" using p by (simp add: less_mult_imp_div_less)
  then have "p div b \<in> set n_order" using cover by simp
  then obtain j where j: "j < length n_order" "n_order ! j = p div b"
    by (auto simp: in_set_conv_nth)
  let ?bat = "p mod b"
  have bat: "?bat < b" using b by simp
  have pos: "n_order ! j * b + ?bat = p" using j by simp
  have kpos: "k_order ! j * b + ?bat < k * b"
    using kr j len bat by (auto intro!: grid_index_less)
  have m1: "(n_order ! j * b + ?bat, k_order ! j * b + ?bat) \<in>
            set (index_pairs n_order k_order b [0..<b])"
    by (rule index_pairs_member) (use len j bat in simp_all)
  have m2: "(k_order ! j * b + ?bat, n_order ! j * b + ?bat) \<in>
            set (index_pairs k_order n_order b [0..<b])"
    by (rule index_pairs_member) (use len j bat in simp_all)
  have d1: "distinct (map fst (index_pairs n_order k_order b [0..<b]))"
    using len dn by (simp add: distinct_fst_index_pairs)
  have d2: "distinct (map fst (index_pairs k_order n_order b [0..<b]))"
    using len dk by (simp add: distinct_fst_index_pairs)
  have "copy_pairs (index_pairs n_order k_order b [0..<b]) ?S (replicate (n * b) 0) ! (n_order ! j * b + ?bat)
        = ?S ! (k_order ! j * b + ?bat)"
    using copy_pairs_written[OF d1 m1, of "replicate (n * b) 0" ?S] p pos by simp
  also have "\<dots> = u ! (n_order ! j * b + ?bat)"
    using copy_pairs_written[OF d2 m2, of "replicate (k * b) 0" u] kpos by simp
  finally show "copy_pairs (index_pairs n_order k_order b [0..<b]) ?S (replicate (n * b) 0) ! p = u ! p"
    by (simp add: pos)
qed (simp add: lu)

section \<open>The operators of the shape contract\<close>

lemma demo_st16_conforming: "conforming demo_st16"
  by (simp add: conforming_def demo_st16_def matrix_ok_def np_ones_def)

lemma demo16_le: "list_all2 (\<le>) [16, 16] [32, 32::nat]"
  by simp

lemma demo16_axes: "\<forall>ax \<in> set (plan_axes [16, 16] None). ax < length [32, 32::nat] \<and> [32, 32::nat] ! ax \<noteq> 0"
  by (auto simp: plan_axes_def nth_Cons')

lemma demo_op16_planned: "planned demo_op16 [16, 16] [32, 32] 100 []"
proof -
  have "planned (snd (plan demo_helper16 NUFFT_cpu_init (replicate 100 [0, 0]) [16, 16] [32, 32] [6, 6] None None))
          (st_Nd demo_st16) (st_Kd demo_st16) (st_M demo_st16) (case None of None \<Rightarrow> [] | Some v \<Rightarrow> [v])"
  proof (rule plan_planned[where tabs = "preindex_copy [16, 16] [32, 32]"])
    show "helper_plan demo_helper16 (replicate 100 [0, 0]) [16, 16] [32, 32] [6, 6] (plan_axes [16, 16] None) = Inr demo_st16"
      by (simp add: demo_helper16_def)
    show "conforming demo_st16" by (rule demo_st16_conforming)
    show "helper_preindex_copy demo_helper16 (st_Nd demo_st16) (st_Kd demo_st16) = Inr (preindex_copy [16, 16] [32, 32])"
      by (simp add: demo_helper16_def demo_helper_def demo_st16_def)
    show "tables_ok (st_Nd demo_st16) (st_Kd demo_st16) (preindex_copy [16, 16] [32, 32])"
      using preindex_copy_tables_ok[OF demo16_le] by (simp add: demo_st16_def)
    show "\<forall>ax\<in>set (plan_axes [16, 16] None). ax < length (st_Kd demo_st16) \<and> st_Kd demo_st16 ! ax \<noteq> 0"
      using demo16_axes by (simp add: demo_st16_def)
  qed
  then show ?thesis by (simp add: demo_op16_def demo_st16_def)
qed

lemma demo_op16b_planned: "planned demo_op16b [16, 16] [32, 32] 100 [4]"
proof -
  have "planned (snd (plan demo_helper16 NUFFT_cpu_init (replicate 100 [0, 0]) [16, 16] [32, 32] [6, 6] None (Some 4)))
          (st_Nd demo_st16) (st_Kd demo_st16) (st_M demo_st16) (case Some 4 of None \<Rightarrow> [] | Some v \<Rightarrow> [v])"
  proof (rule plan_planned[where tabs = "preindex_copy [16, 16] [32, 32]"])
    show "helper_plan demo_helper16 (replicate 100 [0, 0]) [16, 16] [32, 32] [6, 6] (plan_axes [16, 16] None) = Inr demo_st16"
      by (simp add: demo_helper16_def)
    show "conforming demo_st16" by (rule demo_st16_conforming)
    show "helper_preindex_copy demo_helper16 (st_Nd demo_st16) (st_Kd demo_st16) = Inr (preindex_copy [16, 16] [32, 32])"
      by (simp add: demo_helper16_def demo_helper_def demo_st16_def)
    show "tables_ok (st_Nd demo_st16) (st_Kd demo_st16) (preindex_copy [16, 16] [32, 32])"
      using preindex_copy_tables_ok[OF demo16_le] by (simp add: demo_st16_def)
    show "\<forall>ax\<in>set (plan_axes [16, 16] None). ax < length (st_Kd demo_st16) \<and> st_Kd demo_st16 ! ax \<noteq> 0"
      using demo16_axes by (simp add: demo_st16_def)
  qed
  then show ?thesis by (simp add: demo_op16b_def demo_st16_def)
qed

section \<open>Inner products and adjoint pairs\<close>

text \<open>
  Each stage of \<open>forward\<close> has an adjoint under \<open>cinner\<close>: the scaling by a real
  \<open>sn\<close> is its own adjoint, the scatter along distinct tables has the gather as
  adjoint, the sparse product has the product with the conjugate transpose, and the
  unnormalised transform along an axis of size \<open>n\<close> has \<open>n\<close> times the inverse
  transform. The transforms along two axes commute, so the order in which
  \<open>ifftn\<close> visits the axes does not matter.
\<close>

lemma cinner_Nil [simp]: "cinner [] v = 0" "cinner u [] = 0"
  by (simp_all add: cinner_def)

lemma cinner_Cons [simp]: "cinner (x # u) (y # v) = x * cnj y + cinner u v"
  by (simp add: cinner_def)

lemma cinner_append:
  "length u = length v \<Longrightarrow> cinner (u @ u') (v @ v') = cinner u v + cinner u' v'"
  by (simp add: cinner_def)

lemma cinner_cnj: "cinner u v = cnj (cinner v u)"
proof (induction u arbitrary: v)
  case Nil
  then show ?case by simp
next
  case (Cons x u)
  then show ?case by (cases v) simp_all
qed

lemma cinner_map: "cinner (map f xs) (map g xs) = (\<Sum>x\<leftarrow>xs. f x * cnj (g x))"
  by (induction xs) simp_all

lemma cinner_nth:
  "length u = length v \<Longrightarrow> cinner u v = (\<Sum>i\<leftarrow>[0..<length u]. u ! i * cnj (v ! i))"
proof -
  assume l: "length u = length v"
  have u: "map ((!) u) [0..<length u] = u" by (rule map_nth)
  have v: "map ((!) v) [0..<length u] = v" unfolding l by (rule map_nth)
  show ?thesis
    using cinner_map[of "(!) u" "[0..<length u]" "(!) v"] by (simp only: u v)
qed

lemma cinner_replicate_zero [simp]: "cinner (replicate n 0) v = 0"
proof (induction n arbitrary: v)
  case 0
  then show ?case by simp
next
  case (Suc n)
  then show ?case by (cases v) simp_all
qed

lemma cinner_update:
  "d < length u \<Longrightarrow> length u = length w \<Longrightarrow>
   cinner (u[d := x]) w = cinner u w + (x - u ! d) * cnj (w ! d)"
proof (induction u arbitrary: d w)
  case Nil
  then show ?case by simp
next
  case (Cons a u)
  then obtain c w' where w: "w = c # w'" by (cases w) auto
  show ?case
  proof (cases d)
    case 0
    then show ?thesis by (simp add: w algebra_simps)
  next
    case (Suc d')
    then show ?thesis using Cons by (simp add: w)
  qed
qed

lemma cinner_scatter:
  assumes "distinct (map fst T)" "\<forall>(d, s) \<in> set T. d < k" "length w = k"
  shows "cinner (copy_pairs T u (replicate k 0)) w = (\<Sum>(d, s)\<leftarrow>T. u ! s * cnj (w ! d))"
  using assms(1,2)
proof (induction T rule: rev_induct)
  case Nil
  then show ?case by (simp add: copy_pairs_def)
next
  case (snoc e T)
  obtain d s where e: "e = (d, s)" by (cases e)
  have d: "d < k" "d \<notin> fst ` set T" using snoc.prems e by auto
  have zero: "copy_pairs T u (replicate k 0) ! d = 0"
    using copy_pairs_other[OF d(2), of u "replicate k 0"] d(1) by simp
  have "cinner ((copy_pairs T u (replicate k 0))[d := u ! s]) w =
        cinner (copy_pairs T u (replicate k 0)) w + (u ! s - 0) * cnj (w ! d)"
    using cinner_update[of d "copy_pairs T u (replicate k 0)" w "u ! s"] d(1) assms(3) zero
    by simp
  then show ?case using snoc by (simp add: copy_pairs_append e copy_pairs_def[of "[(d, s)]"])
qed

lemma index_pairs_swap:
  "index_pairs dst sidx b bats = map prod.swap (index_pairs sidx dst b bats)"
proof -
  have z: "zip xs ys = map prod.swap (zip ys xs)" for xs ys :: "nat list"
    by (induction xs ys rule: list_induct2') simp_all
  show ?thesis
    unfolding index_pairs_def map_concat
    by (rule arg_cong[where f = concat], simp only: map_map comp_def, rule map_cong[OF refl], rule z)
qed

lemma cnj_sum_pairs:
  "cnj (\<Sum>(d, s)\<leftarrow>T. w ! s * cnj (u ! d)) = (\<Sum>(d, s)\<leftarrow>T. u ! d * cnj (w ! s))"
  by (induction T) (auto simp: algebra_simps)

lemma cinner_scatter_gather:
  assumes len: "length n_order = length k_order"
    and dn: "distinct n_order" and dk: "distinct k_order"
    and nr: "\<forall>i \<in> set n_order. i < n" and kr: "\<forall>i \<in> set k_order. i < k"
    and lu: "length u = n * b" and lw: "length w = k * b"
  shows "cinner (copy_pairs (index_pairs k_order n_order b [0..<b]) u (replicate (k * b) 0)) w =
         cinner u (copy_pairs (index_pairs n_order k_order b [0..<b]) w (replicate (n * b) 0))"
proof -
  let ?T = "index_pairs k_order n_order b [0..<b]"
  let ?T' = "index_pairs n_order k_order b [0..<b]"
  have r: "\<forall>(d, s) \<in> set ?T. d < k * b \<and> s < n * b"
    by (rule index_pairs_range[OF nr kr]) simp
  have r': "\<forall>(d, s) \<in> set ?T'. d < n * b \<and> s < k * b"
    by (rule index_pairs_range[OF kr nr]) simp
  have 1: "cinner (copy_pairs ?T u (replicate (k * b) 0)) w = (\<Sum>(d, s)\<leftarrow>?T. u ! s * cnj (w ! d))"
    by (rule cinner_scatter) (use len dk r lw in \<open>auto simp: distinct_fst_index_pairs\<close>)
  have 2: "cinner (copy_pairs ?T' w (replicate (n * b) 0)) u = (\<Sum>(d, s)\<leftarrow>?T'. w ! s * cnj (u ! d))"
    by (rule cinner_scatter) (use len dn r' lu in \<open>auto simp: distinct_fst_index_pairs\<close>)
  have "cinner u (copy_pairs ?T' w (replicate (n * b) 0)) =
        cnj (\<Sum>(d, s)\<leftarrow>?T'. w ! s * cnj (u ! d))"
    using 2 cinner_cnj[of u] by simp
  also have "\<dots> = (\<Sum>(d, s)\<leftarrow>?T'. u ! d * cnj (w ! s))"
    by (rule cnj_sum_pairs)
  also have "\<dots> = (\<Sum>(d, s)\<leftarrow>?T. u ! s * cnj (w ! d))"
    by (subst index_pairs_swap[of k_order n_order]) (simp add: comp_def case_prod_unfold)
  finally show ?thesis using 1 by simp
qed

lemma cinner_scale:
  assumes re: "\<forall>z \<in> set s. Im z = 0" and ls: "length s = n"
    and lu: "length u = n * b" and lv: "length v = n * b"
  shows "cinner (scale_data b s u) v = cinner u (scale_data b s v)"
proof -
  have "cinner (scale_data b s u) v =
        cinner (map (\<lambda>i. u ! i * s ! (i div b)) [0..<n * b]) (map ((!) v) [0..<n * b])"
    using lu map_nth[of v] lv by (simp add: scale_data_def)
  also have "\<dots> = (\<Sum>i\<leftarrow>[0..<n * b]. u ! i * s ! (i div b) * cnj (v ! i))"
    by (rule cinner_map)
  also have "\<dots> = (\<Sum>i\<leftarrow>[0..<n * b]. u ! i * cnj (v ! i * s ! (i div b)))"
  proof (rule arg_cong[where f = sum_list], rule map_cong[OF refl])
    fix i assume "i \<in> set [0..<n * b]"
    then have "i div b < n" by (simp add: less_mult_imp_div_less)
    then have "s ! (i div b) \<in> set s" using ls by simp
    then have "cnj (s ! (i div b)) = s ! (i div b)" using re by (simp add: complex_eq_iff)
    then show "u ! i * s ! (i div b) * cnj (v ! i) = u ! i * cnj (v ! i * s ! (i div b))"
      by (simp add: algebra_simps)
  qed
  also have "\<dots> = cinner (map ((!) u) [0..<n * b]) (map (\<lambda>i. v ! i * s ! (i div b)) [0..<n * b])"
    by (rule cinner_map[symmetric])
  also have "\<dots> = cinner u (scale_data b s v)"
    using lv map_nth[of u] lu by (simp add: scale_data_def)
  finally show ?thesis .
qed

lemma cinner_grid:
  "cinner (concat (map (\<lambda>k. map (f k) ys) xs)) (concat (map (\<lambda>k. map (g k) ys) xs)) =
   (\<Sum>k\<leftarrow>xs. \<Sum>r\<leftarrow>ys. f k r * cnj (g k r))"
  by (induction xs) (simp_all add: cinner_append cinner_map)

lemma grid_decomp:
  assumes "length u = n * m"
  shows "u = concat (map (\<lambda>k. map (\<lambda>r. u ! (k * m + r)) [0..<m]) [0..<n])"
proof (rule nth_equalityI)
  show "length u = length (concat (map (\<lambda>k. map (\<lambda>r. u ! (k * m + r)) [0..<m]) [0..<n]))"
    using assms by simp
next
  fix i assume "i < length u"
  then have i: "i < n * m" using assms by simp
  then have m: "0 < m" by (cases m) simp_all
  have d: "i div m < n" using i by (simp add: less_mult_imp_div_less)
  have r: "i mod m < m" using m by simp
  have "concat (map (\<lambda>k. map (\<lambda>r. u ! (k * m + r)) [0..<m]) [0..<n]) ! (i div m * m + i mod m) =
        u ! (i div m * m + i mod m)"
    using d r by (rule concat_grid_nth)
  then show "u ! i = concat (map (\<lambda>k. map (\<lambda>r. u ! (k * m + r)) [0..<m]) [0..<n]) ! i"
    by simp
qed

lemma sum_list_exchange:
  fixes f :: "'a \<Rightarrow> 'b \<Rightarrow> complex"
  shows "(\<Sum>x\<leftarrow>xs. \<Sum>y\<leftarrow>ys. f x y) = (\<Sum>y\<leftarrow>ys. \<Sum>x\<leftarrow>xs. f x y)"
  by (induction xs) (simp_all add: sum_list_addf)

lemma cnj_sum_list: "cnj (\<Sum>x\<leftarrow>xs. f x) = (\<Sum>x\<leftarrow>xs. cnj (f x))"
  by (induction xs) simp_all

lemma sum_list_delta:
  fixes c :: complex
  shows "k < n \<Longrightarrow> (\<Sum>m\<leftarrow>[0..<n]. if k = m then c else 0) = c"
  by (simp add: interv_sum_list_conv_sum_set_nat)

lemma sum_list_group:
  fixes f :: "'a \<Rightarrow> complex"
  assumes "\<forall>e \<in> set E. key e < n"
  shows "(\<Sum>m\<leftarrow>[0..<n]. \<Sum>e\<leftarrow>filter (\<lambda>e. key e = m) E. f e) = (\<Sum>e\<leftarrow>E. f e)"
  using assms
proof (induction E)
  case Nil
  then show ?case by simp
next
  case (Cons e E)
  have 1: "(\<Sum>m\<leftarrow>[0..<n]. \<Sum>e'\<leftarrow>filter (\<lambda>e'. key e' = m) (e # E). f e') =
        (\<Sum>m\<leftarrow>[0..<n]. (if key e = m then f e else 0) +
                          (\<Sum>e'\<leftarrow>filter (\<lambda>e'. key e' = m) E. f e'))"
    by (intro arg_cong[where f = sum_list] map_cong refl) simp
  have 2: "(\<Sum>m\<leftarrow>[0..<n]. if key e = m then f e else 0) = f e"
    using Cons.prems by (intro sum_list_delta) simp
  have 3: "(\<Sum>m\<leftarrow>[0..<n]. \<Sum>e'\<leftarrow>filter (\<lambda>e'. key e' = m) E. f e') = (\<Sum>e\<leftarrow>E. f e)"
    using Cons by simp
  show ?case unfolding 1 by (simp only: sum_list_addf 2 3 list.map sum_list.Cons)
qed

lemma spmm_cinner:
  assumes ok: "matrix_ok A" and lv: "length v = nrows A * b"
  shows "cinner (spmm A b u) v =
         (\<Sum>(r, c, a)\<leftarrow>entries A. \<Sum>j\<leftarrow>[0..<b]. a * u ! (c * b + j) * cnj (v ! (r * b + j)))"
proof -
  let ?h = "\<lambda>e j. snd (snd e) * u ! (fst (snd e) * b + j) * cnj (v ! (fst e * b + j))"
  let ?E = "entries A"
  have "cinner (spmm A b u) v =
        cinner (spmm A b u) (concat (map (\<lambda>k. map (\<lambda>r. v ! (k * b + r)) [0..<b]) [0..<nrows A]))"
    using grid_decomp[OF lv] by simp
  also have "\<dots> = (\<Sum>m\<leftarrow>[0..<nrows A]. \<Sum>j\<leftarrow>[0..<b].
                      (\<Sum>(r, c, a)\<leftarrow>filter (\<lambda>(r, c, a). r = m) ?E. a * u ! (c * b + j)) *
                      cnj (v ! (m * b + j)))"
    unfolding spmm_def by (rule cinner_grid)
  also have "\<dots> = (\<Sum>m\<leftarrow>[0..<nrows A]. \<Sum>e\<leftarrow>filter (\<lambda>e. fst e = m) ?E. \<Sum>j\<leftarrow>[0..<b]. ?h e j)"
  proof (rule arg_cong[where f = sum_list], rule map_cong[OF refl])
    fix m
    have f: "filter (\<lambda>(r, c, a). r = m) ?E = filter (\<lambda>e. fst e = m) ?E"
      by (rule filter_cong) auto
    have "(\<Sum>j\<leftarrow>[0..<b]. (\<Sum>(r, c, a)\<leftarrow>filter (\<lambda>(r, c, a). r = m) ?E. a * u ! (c * b + j)) *
                          cnj (v ! (m * b + j))) =
          (\<Sum>j\<leftarrow>[0..<b]. \<Sum>e\<leftarrow>filter (\<lambda>e. fst e = m) ?E. ?h e j)"
    proof (rule arg_cong[where f = sum_list], rule map_cong[OF refl])
      fix j
      have "(\<Sum>(r, c, a)\<leftarrow>filter (\<lambda>(r, c, a). r = m) ?E. a * u ! (c * b + j)) * cnj (v ! (m * b + j)) =
            (\<Sum>e\<leftarrow>filter (\<lambda>e. fst e = m) ?E.
               snd (snd e) * u ! (fst (snd e) * b + j) * cnj (v ! (m * b + j)))"
        unfolding f by (simp add: sum_list_mult_const case_prod_unfold)
      also have "\<dots> = (\<Sum>e\<leftarrow>filter (\<lambda>e. fst e = m) ?E. ?h e j)"
        by (rule arg_cong[where f = sum_list], rule map_cong[OF refl]) simp
      finally show "(\<Sum>(r, c, a)\<leftarrow>filter (\<lambda>(r, c, a). r = m) ?E. a * u ! (c * b + j)) *
                    cnj (v ! (m * b + j)) = (\<Sum>e\<leftarrow>filter (\<lambda>e. fst e = m) ?E. ?h e j)" .
    qed
    then show "(\<Sum>j\<leftarrow>[0..<b]. (\<Sum>(r, c, a)\<leftarrow>filter (\<lambda>(r, c, a). r = m) ?E. a * u ! (c * b + j)) *
                          cnj (v ! (m * b + j))) =
               (\<Sum>e\<leftarrow>filter (\<lambda>e. fst e = m) ?E. \<Sum>j\<leftarrow>[0..<b]. ?h e j)"
      by (simp only: sum_list_exchange[of _ "[0..<b]"])
  qed
  also have "\<dots> = (\<Sum>e\<leftarrow>?E. \<Sum>j\<leftarrow>[0..<b]. ?h e j)"
    by (rule sum_list_group) (use ok in \<open>auto simp: matrix_ok_def\<close>)
  finally show ?thesis by (simp add: case_prod_unfold)
qed

lemma spmm_adjoint:
  assumes ok: "matrix_ok A" and lu: "length u = ncols A * b" and lv: "length v = nrows A * b"
  shows "cinner (spmm A b u) v = cinner u (spmm (getH A) b v)"
proof -
  have "cinner u (spmm (getH A) b v) = cnj (cinner (spmm (getH A) b v) u)"
    by (rule cinner_cnj)
  also have "cinner (spmm (getH A) b v) u =
    (\<Sum>(r, c, a)\<leftarrow>entries (getH A). \<Sum>j\<leftarrow>[0..<b]. a * v ! (c * b + j) * cnj (u ! (r * b + j)))"
    by (rule spmm_cinner) (use ok lu in \<open>simp_all add: matrix_ok_getH\<close>)
  also have "cnj \<dots> =
    (\<Sum>(r, c, a)\<leftarrow>entries A. \<Sum>j\<leftarrow>[0..<b]. a * u ! (c * b + j) * cnj (v ! (r * b + j)))"
    by (simp add: getH_def cnj_sum_list comp_def case_prod_unfold algebra_simps)
  finally show ?thesis using spmm_cinner[OF ok lv, of u] by simp
qed

lemma cnj_omega: "cnj (omega sg n j) = omega (- sg) n j"
  by (simp add: omega_def cis_cnj)

lemma cinner_concat:
  "\<forall>x \<in> set xs. length (F x) = length (H x) \<Longrightarrow>
   cinner (concat (map F xs)) (concat (map H xs)) = (\<Sum>x\<leftarrow>xs. cinner (F x) (H x))"
  by (induction xs) (simp_all add: cinner_append)

lemma block_decomp:
  "length u = d * m \<Longrightarrow> u = concat (map (\<lambda>i. take m (drop (i * m) u)) [0..<d])"
proof (induction d arbitrary: u)
  case 0
  then show ?case by simp
next
  case (Suc d)
  have "length (drop m u) = d * m" using Suc.prems by simp
  then have "drop m u = concat (map (\<lambda>i. take m (drop (i * m) (drop m u))) [0..<d])"
    by (rule Suc.IH)
  then have "drop m u = concat (map (\<lambda>i. take m (drop (Suc i * m) u)) [0..<d])"
    by (simp add: add.commute)
  then have "take m u @ drop m u =
             take m u @ concat (map (\<lambda>i. take m (drop (Suc i * m) u)) [0..<d])"
    by simp
  then show ?case by (simp add: map_upt_Suc del: upt_Suc mult_Suc)
qed

lemma cinner_divide: "cinner u (map (\<lambda>z. z / c) v) = cinner u v / cnj c"
proof (induction u arbitrary: v)
  case Nil
  then show ?case by simp
next
  case (Cons x u)
  then show ?case by (cases v) (simp_all add: add_divide_distrib)
qed

lemma dft_lead_cinner:
  assumes lw: "length w = n * m"
  shows "cinner (dft_lead sg n m u) w =
         (\<Sum>k = 0..<n. \<Sum>r = 0..<m. \<Sum>j = 0..<n.
            omega sg n (k * j) * u ! (j * m + r) * cnj (w ! (k * m + r)))"
proof -
  have "cinner (dft_lead sg n m u) w =
        cinner (dft_lead sg n m u) (concat (map (\<lambda>k. map (\<lambda>r. w ! (k * m + r)) [0..<m]) [0..<n]))"
    using grid_decomp[OF lw] by simp
  also have "\<dots> = (\<Sum>k\<leftarrow>[0..<n]. \<Sum>r\<leftarrow>[0..<m].
                      (\<Sum>j\<leftarrow>[0..<n]. omega sg n (k * j) * u ! (j * m + r)) * cnj (w ! (k * m + r)))"
    unfolding dft_lead_def by (rule cinner_grid)
  finally show ?thesis
    by (simp add: interv_sum_list_conv_sum_set_nat sum_distrib_right)
qed

lemma dft_lead_adjoint:
  assumes lu: "length u = n * m" and lw: "length w = n * m"
  shows "cinner (dft_lead sg n m u) w = cinner u (dft_lead (- sg) n m w)"
proof -
  let ?t = "\<lambda>k r j. omega sg n (k * j) * u ! (j * m + r) * cnj (w ! (k * m + r))"
  have "cinner u (dft_lead (- sg) n m w) = cnj (cinner (dft_lead (- sg) n m w) u)"
    by (rule cinner_cnj)
  also have "\<dots> = cnj (\<Sum>j = 0..<n. \<Sum>r = 0..<m. \<Sum>k = 0..<n.
                      omega (- sg) n (j * k) * w ! (k * m + r) * cnj (u ! (j * m + r)))"
    by (simp only: dft_lead_cinner[OF lu])
  also have "\<dots> = (\<Sum>j = 0..<n. \<Sum>r = 0..<m. \<Sum>k = 0..<n. ?t k r j)"
    by (simp add: cnj_omega mult.commute mult.left_commute)
  also have "\<dots> = (\<Sum>j = 0..<n. \<Sum>k = 0..<n. \<Sum>r = 0..<m. ?t k r j)"
    by (rule sum.cong[OF refl]) (rule sum.swap)
  also have "\<dots> = (\<Sum>k = 0..<n. \<Sum>j = 0..<n. \<Sum>r = 0..<m. ?t k r j)"
    by (rule sum.swap)
  also have "\<dots> = (\<Sum>k = 0..<n. \<Sum>r = 0..<m. \<Sum>j = 0..<n. ?t k r j)"
    by (rule sum.cong[OF refl]) (rule sum.swap)
  finally show ?thesis by (simp only: dft_lead_cinner[OF lw])
qed

lemma dft_axis_adjoint:
  "ax < length s \<Longrightarrow> length u = prod_list s \<Longrightarrow> length w = prod_list s \<Longrightarrow>
   cinner (dft_axis sg s ax u) w = cinner u (dft_axis (- sg) s ax w)"
proof (induction s arbitrary: ax u w)
  case Nil
  then show ?case by simp
next
  case (Cons d ds)
  show ?case
  proof (cases ax)
    case 0
    then show ?thesis using Cons.prems by (simp add: dft_lead_adjoint)
  next
    case (Suc ax')
    let ?m = "prod_list ds"
    let ?b = "\<lambda>v i. take ?m (drop (i * ?m) v)"
    have ax': "ax' < length ds" using Cons.prems Suc by simp
    have lu: "length u = d * ?m" and lw: "length w = d * ?m" using Cons.prems by simp_all
    have blk: "length (?b v i) = ?m" if "i < d" "length v = d * ?m"
      for i and v :: "complex list"
      using block_fits[OF that(1), of ?m] that(2) by (intro length_block) simp
    have "cinner (dft_axis sg (d # ds) ax u) w =
          cinner (concat (map (\<lambda>i. dft_axis sg ds ax' (?b u i)) [0..<d]))
                 (concat (map (\<lambda>i. ?b w i) [0..<d]))"
      using block_decomp[OF lw] by (simp add: Suc)
    also have "\<dots> = (\<Sum>i\<leftarrow>[0..<d]. cinner (dft_axis sg ds ax' (?b u i)) (?b w i))"
      by (rule cinner_concat) (use ax' blk lu lw in \<open>simp add: length_dft_axis\<close>)
    also have "\<dots> = (\<Sum>i\<leftarrow>[0..<d]. cinner (?b u i) (dft_axis (- sg) ds ax' (?b w i)))"
    proof (rule arg_cong[where f = sum_list], rule map_cong[OF refl])
      fix i assume "i \<in> set [0..<d]"
      then have i: "i < d" by simp
      show "cinner (dft_axis sg ds ax' (?b u i)) (?b w i) =
            cinner (?b u i) (dft_axis (- sg) ds ax' (?b w i))"
        by (rule Cons.IH[OF ax' blk[OF i lu] blk[OF i lw]])
    qed
    also have "\<dots> = cinner (concat (map (\<lambda>i. ?b u i) [0..<d]))
                             (concat (map (\<lambda>i. dft_axis (- sg) ds ax' (?b w i)) [0..<d]))"
      by (rule cinner_concat[symmetric]) (use ax' blk lu lw in \<open>simp add: length_dft_axis\<close>)
    also have "\<dots> = cinner u (dft_axis (- sg) (d # ds) ax w)"
      using block_decomp[OF lu] by (simp add: Suc)
    finally show ?thesis .
  qed
qed

lemma fft_ifft_adjoint:
  assumes "ax < length s" "length u = prod_list s" "length w = prod_list s"
  shows "cinner (fft_axis s ax u) w = of_nat (s ! ax) * cinner u (ifft_axis s ax w)"
proof (cases "s ! ax = 0")
  case True
  have "prod_list s = 0" using assms(1) True by (auto simp: prod_list_zero_iff in_set_conv_nth)
  then have "w = []" using assms(3) by simp
  then show ?thesis using True by simp
next
  case False
  then show ?thesis
    using dft_axis_adjoint[OF assms, of "- 1"]
    by (simp add: fft_axis_def ifft_axis_def cinner_divide)
qed

lemma length_foldr_pres:
  assumes "\<And>a u. a \<in> set axes \<Longrightarrow> length u = n \<Longrightarrow> length (F a u) = n"
  shows "length u = n \<Longrightarrow> length (foldr F axes u) = n"
  using assms by (induction axes) simp_all

lemma foldr_adjoint:
  assumes adj: "\<And>a u w. a \<in> set axes \<Longrightarrow> length u = n \<Longrightarrow> length w = n \<Longrightarrow>
                  cinner (F a u) w = c a * cinner u (G a w)"
    and lF: "\<And>a u. a \<in> set axes \<Longrightarrow> length u = n \<Longrightarrow> length (F a u) = n"
    and lG: "\<And>a u. a \<in> set axes \<Longrightarrow> length u = n \<Longrightarrow> length (G a u) = n"
  shows "length u = n \<Longrightarrow> length w = n \<Longrightarrow>
         cinner (foldr F axes u) w = prod_list (map c axes) * cinner u (fold G axes w)"
  using assms
proof (induction axes arbitrary: w)
  case Nil
  then show ?case by simp
next
  case (Cons a axes)
  have lf: "length (foldr F axes u) = n"
    using Cons.prems(1) Cons.prems(4) by (intro length_foldr_pres) simp_all
  have "cinner (F a (foldr F axes u)) w = c a * cinner (foldr F axes u) (G a w)"
    using Cons.prems(2) lf by (intro Cons.prems(3)) simp_all
  also have "cinner (foldr F axes u) (G a w) =
             prod_list (map c axes) * cinner u (fold G axes (G a w))"
    using Cons.prems by (intro Cons.IH) simp_all
  finally show ?case by simp
qed

lemma block_of_concat:
  "(\<And>i. i < d \<Longrightarrow> length (f i) = m) \<Longrightarrow> i < d \<Longrightarrow>
   take m (drop (i * m) (concat (map f [0..<d]))) = f i"
proof (induction d)
  case 0
  then show ?case by simp
next
  case (Suc d)
  have l: "length (concat (map f [0..<d])) = d * m"
    by (rule length_concat_const) (simp add: Suc.prems(1))
  show ?case
  proof (cases "i < d")
    case True
    have "Suc i * m \<le> d * m" using True by (intro mult_le_mono1) simp
    then have "i * m + m \<le> d * m" by simp
    then show ?thesis using Suc.IH[OF Suc.prems(1) True] l by simp
  next
    case False
    then have "i = d" using Suc.prems(2) by simp
    then show ?thesis using l Suc.prems(1)[of d] by simp
  qed
qed

lemma block_nth:
  "j < n \<Longrightarrow> r < m \<Longrightarrow> length v = n * m \<Longrightarrow> take m (drop (j * m) v) ! r = v ! (j * m + r)"
  using grid_index_less[of j n r m] by simp

lemma linear_sum:
  assumes G: "linear_map m m' G"
  shows "\<forall>j \<in> set js. length (B j) = m \<Longrightarrow>
         G (map (\<lambda>r. \<Sum>j\<leftarrow>js. c j * B j ! r) [0..<m]) =
         map (\<lambda>r. \<Sum>j\<leftarrow>js. c j * G (B j) ! r) [0..<m']"
proof (induction js)
  case Nil
  have "map (\<lambda>r. 0::complex) [0..<k] = replicate k 0" for k
    by (rule nth_equalityI) simp_all
  then show ?case using linear_map_zero[OF G] by simp
next
  case (Cons j js)
  let ?u = "map (\<lambda>r. \<Sum>j\<leftarrow>js. c j * B j ! r) [0..<m]"
  let ?w = "map (\<lambda>r. \<Sum>j\<leftarrow>js. c j * G (B j) ! r) [0..<m']"
  have lB: "length (B j) = m" using Cons.prems by simp
  have lG: "length (G (B j)) = m'" using linear_map_length[OF G lB] .
  have IH: "G ?u = ?w" using Cons by simp
  have "map (\<lambda>r. \<Sum>i\<leftarrow>j # js. c i * B i ! r) [0..<m] = lincomb (c j) (B j) 1 ?u"
    using lB by (intro nth_equalityI) (simp_all add: lincomb_nth)
  then have "G (map (\<lambda>r. \<Sum>i\<leftarrow>j # js. c i * B i ! r) [0..<m]) = lincomb (c j) (G (B j)) 1 (G ?u)"
    using linear_map_lincomb[OF G lB, of ?u "c j" 1] by simp
  also have "\<dots> = map (\<lambda>r. \<Sum>i\<leftarrow>j # js. c i * G (B i) ! r) [0..<m']"
    unfolding IH using lG by (intro nth_equalityI) (simp_all add: lincomb_nth)
  finally show ?case .
qed

lemma dft_lead_blocks:
  assumes G: "linear_map m m G" and lv: "length v = n * m"
  shows "dft_lead sg n m (concat (map (\<lambda>i. G (take m (drop (i * m) v))) [0..<n])) =
         concat (map (\<lambda>i. G (take m (drop (i * m) (dft_lead sg n m v)))) [0..<n])"
proof -
  let ?B = "\<lambda>j. take m (drop (j * m) v)"
  let ?v' = "concat (map (\<lambda>i. G (?B i)) [0..<n])"
  have lB: "length (?B j) = m" if "j < n" for j
    using block_fits[OF that, of m] lv by (intro length_block) simp
  have lGB: "length (G (?B j)) = m" if "j < n" for j
    using linear_map_length[OF G lB[OF that]] .
  have v': "?v' ! (j * m + r) = G (?B j) ! r" if "j < n" "r < m" for j r
  proof -
    have "take m (drop (j * m) ?v') ! r = ?v' ! (j * m + r)"
      using that by (intro block_nth[where n = n]) (simp_all add: length_concat_const lGB)
    moreover have "take m (drop (j * m) ?v') = G (?B j)"
      using lGB that(1) by (rule block_of_concat)
    ultimately show ?thesis by simp
  qed
  have cellL: "map (\<lambda>r. \<Sum>j\<leftarrow>[0..<n]. omega sg n (k * j) * ?v' ! (j * m + r)) [0..<m] =
        map (\<lambda>r. \<Sum>j\<leftarrow>[0..<n]. omega sg n (k * j) * G (?B j) ! r) [0..<m]" for k
  proof (rule map_cong[OF refl])
    fix r assume "r \<in> set [0..<m]"
    then have r: "r < m" by simp
    show "(\<Sum>j\<leftarrow>[0..<n]. omega sg n (k * j) * ?v' ! (j * m + r)) =
          (\<Sum>j\<leftarrow>[0..<n]. omega sg n (k * j) * G (?B j) ! r)"
      by (rule arg_cong[where f = sum_list], rule map_cong[OF refl]) (simp add: v' r)
  qed
  have cellR: "G (take m (drop (k * m) (dft_lead sg n m v))) =
        map (\<lambda>r. \<Sum>j\<leftarrow>[0..<n]. omega sg n (k * j) * G (?B j) ! r) [0..<m]" if k: "k < n" for k
  proof -
    have "take m (drop (k * m) (dft_lead sg n m v)) =
          map (\<lambda>r. \<Sum>j\<leftarrow>[0..<n]. omega sg n (k * j) * v ! (j * m + r)) [0..<m]"
      unfolding dft_lead_def using _ k by (rule block_of_concat) simp
    also have "\<dots> = map (\<lambda>r. \<Sum>j\<leftarrow>[0..<n]. omega sg n (k * j) * ?B j ! r) [0..<m]"
    proof (rule map_cong[OF refl])
      fix r assume "r \<in> set [0..<m]"
      then have r: "r < m" by simp
      show "(\<Sum>j\<leftarrow>[0..<n]. omega sg n (k * j) * v ! (j * m + r)) =
            (\<Sum>j\<leftarrow>[0..<n]. omega sg n (k * j) * ?B j ! r)"
        by (rule arg_cong[where f = sum_list], rule map_cong[OF refl])
           (simp add: block_nth[where n = n] r lv)
    qed
    finally show ?thesis using linear_sum[OF G, of "[0..<n]" ?B "\<lambda>j. omega sg n (k * j)"] lB
      by simp
  qed
  have "dft_lead sg n m ?v' =
        concat (map (\<lambda>k. map (\<lambda>r. \<Sum>j\<leftarrow>[0..<n]. omega sg n (k * j) * G (?B j) ! r) [0..<m]) [0..<n])"
    unfolding dft_lead_def by (simp only: cellL)
  also have "\<dots> = concat (map (\<lambda>i. G (take m (drop (i * m) (dft_lead sg n m v)))) [0..<n])"
    by (rule arg_cong[where f = concat], rule map_cong[OF refl]) (simp add: cellR)
  finally show ?thesis .
qed

lemma dft_axis_commute:
  "a < length s \<Longrightarrow> b < length s \<Longrightarrow> length v = prod_list s \<Longrightarrow>
   dft_axis sg s a (dft_axis sg s b v) = dft_axis sg s b (dft_axis sg s a v)"
proof (induction s arbitrary: a b v)
  case Nil
  then show ?case by simp
next
  case (Cons d ds)
  let ?m = "prod_list ds"
  have lv: "length v = d * ?m" using Cons.prems by simp
  have blk: "length (take ?m (drop (i * ?m) v)) = ?m" if "i < d" for i
    using block_fits[OF that, of ?m] lv by (intro length_block) simp
  have lead: "dft_lead sg d ?m (concat (map (\<lambda>i. dft_axis sg ds c (take ?m (drop (i * ?m) v))) [0..<d])) =
      concat (map (\<lambda>i. dft_axis sg ds c (take ?m (drop (i * ?m) (dft_lead sg d ?m v)))) [0..<d])"
    if "c < length ds" for c
    using linear_map_dft_axis[OF that] lv by (rule dft_lead_blocks)
  show ?case
  proof (cases a)
    case 0
    show ?thesis
    proof (cases b)
      case 0
      then show ?thesis using \<open>a = 0\<close> by simp
    next
      case (Suc b')
      then show ?thesis using \<open>a = 0\<close> lead[of b'] Cons.prems by simp
    qed
  next
    case (Suc a')
    show ?thesis
    proof (cases b)
      case 0
      then show ?thesis using Suc lead[of a'] Cons.prems by simp
    next
      case b: (Suc b')
      have a': "a' < length ds" and b': "b' < length ds" using Cons.prems Suc b by simp_all
      let ?F = "\<lambda>c w. concat (map (\<lambda>i. dft_axis sg ds c (take ?m (drop (i * ?m) w))) [0..<d])"
      have inner: "take ?m (drop (i * ?m) (?F c v)) = dft_axis sg ds c (take ?m (drop (i * ?m) v))"
        if "i < d" "c < length ds" for i c
        using _ that(1)
        by (rule block_of_concat) (rule length_dft_axis[OF that(2) blk], assumption)
      have "?F a' (?F b' v) =
            concat (map (\<lambda>i. dft_axis sg ds a' (dft_axis sg ds b' (take ?m (drop (i * ?m) v)))) [0..<d])"
        by (rule arg_cong[where f = concat], rule map_cong[OF refl]) (simp add: inner b')
      also have "\<dots> =
            concat (map (\<lambda>i. dft_axis sg ds b' (dft_axis sg ds a' (take ?m (drop (i * ?m) v)))) [0..<d])"
      proof (rule arg_cong[where f = concat], rule map_cong[OF refl])
        fix i assume "i \<in> set [0..<d]"
        then have "i < d" by simp
        then show "dft_axis sg ds a' (dft_axis sg ds b' (take ?m (drop (i * ?m) v))) =
                   dft_axis sg ds b' (dft_axis sg ds a' (take ?m (drop (i * ?m) v)))"
          by (intro Cons.IH[OF a' b'] blk)
      qed
      also have "\<dots> = ?F b' (?F a' v)"
        by (rule arg_cong[where f = concat], rule map_cong[OF refl]) (simp add: inner a')
      finally show ?thesis by (simp add: Suc b)
    qed
  qed
qed

lemma dft_axis_divide:
  assumes "a < length s" "length v = prod_list s"
  shows "dft_axis sg s a (map (\<lambda>z. z / c) v) = map (\<lambda>z. z / c) (dft_axis sg s a v)"
proof -
  have 1: "map (\<lambda>z. z / c) w = lincomb (1 / c) w 0 w" for w :: "complex list"
    by (rule nth_equalityI) (simp_all add: lincomb_nth)
  show ?thesis
    unfolding 1 by (intro linear_map_lincomb[OF linear_map_dft_axis] assms)
qed

lemma ifft_axis_commute:
  assumes "a < length s" "b < length s" "length v = prod_list s"
  shows "ifft_axis s a (ifft_axis s b v) = ifft_axis s b (ifft_axis s a v)"
  using assms
  by (simp add: ifft_axis_def dft_axis_divide length_dft_axis dft_axis_commute[of a s b v])

lemma foldr_commute:
  assumes com: "\<And>a v. a \<in> set xs \<Longrightarrow> length v = n \<Longrightarrow> g x (g a v) = g a (g x v)"
    and len: "\<And>a v. a \<in> set xs \<Longrightarrow> length v = n \<Longrightarrow> length (g a v) = n"
  shows "length v = n \<Longrightarrow> foldr g xs (g x v) = g x (foldr g xs v)"
  using assms
proof (induction xs)
  case Nil
  then show ?case by simp
next
  case (Cons a xs)
  have "length (foldr g xs v) = n"
    using Cons.prems by (intro length_foldr_pres) simp_all
  then show ?case using Cons by simp
qed

lemma fold_foldr_commute:
  assumes com: "\<And>a b v. a \<in> set xs \<Longrightarrow> b \<in> set xs \<Longrightarrow> length v = n \<Longrightarrow> g a (g b v) = g b (g a v)"
    and len: "\<And>a v. a \<in> set xs \<Longrightarrow> length v = n \<Longrightarrow> length (g a v) = n"
  shows "length v = n \<Longrightarrow> fold g xs v = foldr g xs v"
  using assms
proof (induction xs arbitrary: v)
  case Nil
  then show ?case by simp
next
  case (Cons x xs)
  have "fold g xs (g x v) = foldr g xs (g x v)"
    using Cons.prems by (intro Cons.IH) simp_all
  also have "\<dots> = g x (foldr g xs v)"
    using Cons.prems by (intro foldr_commute) simp_all
  finally show ?case by simp
qed

lemma of_nat_prod_list: "(of_nat (prod_list xs) :: complex) = prod_list (map of_nat xs)"
  by (induction xs) simp_all

lemma forward_adjoint_data:
  assumes re: "\<forall>z \<in> set s. Im z = 0" and ls: "length s = n"
    and len: "length n_order = length k_order"
    and dn: "distinct n_order" and dk: "distinct k_order"
    and nr: "\<forall>i \<in> set n_order. i < n" and kr: "\<forall>i \<in> set k_order. i < k"
    and axes: "\<forall>ax \<in> set axes. ax < length kshape"
    and ks: "prod_list kshape = k * b" and ns: "prod_list nshape = n * b"
    and ok: "matrix_ok p" and nc: "ncols p = k"
    and lx: "length x = n * b" and ly: "length y = nrows p * b"
  shows "cinner (forward_data s n_order k_order kshape axes p b x) y =
         of_nat (prod_list (map ((!) kshape) axes)) *
         cinner x (adjoint_data s n_order k_order nshape kshape axes p b y)"
proof -
  let ?W = "copy_pairs (index_pairs k_order n_order b [0..<b]) (scale_data b s x)
              (replicate (k * b) 0)"
  let ?V = "foldr (fft_axis kshape) axes ?W"
  let ?Y = "spmm (getH p) b y"
  let ?Z = "foldr (ifft_axis kshape) axes ?Y"
  let ?G = "copy_pairs (index_pairs n_order k_order b [0..<b]) ?Z (replicate (n * b) 0)"
  have lW: "length ?W = prod_list kshape" using ks by simp
  have lY: "length ?Y = prod_list kshape" using ks nc by simp
  have lV: "length ?V = ncols p * b"
    using lW axes ks nc by (subst length_foldr_pres[where n = "k * b"]) (simp_all add: length_fft_axis)
  have lZ: "length ?Z = k * b"
    using lY axes ks by (subst length_foldr_pres[where n = "k * b"]) (simp_all add: length_ifft_axis)
  have "cinner (spmm p b ?V) y = cinner ?V ?Y"
    using ok lV ly by (rule spmm_adjoint)
  also have "\<dots> = prod_list (map (\<lambda>a. of_nat (kshape ! a)) axes) *
                    cinner ?W (fold (ifft_axis kshape) axes ?Y)"
    using _ _ _ lW lY
  proof (rule foldr_adjoint[where n = "prod_list kshape"])
    fix a and u w :: "complex list"
    assume "a \<in> set axes" "length u = prod_list kshape" "length w = prod_list kshape"
    then show "cinner (fft_axis kshape a u) w = of_nat (kshape ! a) * cinner u (ifft_axis kshape a w)"
      using axes by (intro fft_ifft_adjoint) simp_all
  next
    fix a and u :: "complex list"
    assume "a \<in> set axes" "length u = prod_list kshape"
    then show "length (fft_axis kshape a u) = prod_list kshape"
      using axes by (simp add: length_fft_axis)
  next
    fix a and u :: "complex list"
    assume "a \<in> set axes" "length u = prod_list kshape"
    then show "length (ifft_axis kshape a u) = prod_list kshape"
      using axes by (simp add: length_ifft_axis)
  qed
  also have "fold (ifft_axis kshape) axes ?Y = ?Z"
    using _ _ lY
  proof (rule fold_foldr_commute[where n = "prod_list kshape"])
    fix a c and v :: "complex list"
    assume "a \<in> set axes" "c \<in> set axes" "length v = prod_list kshape"
    then show "ifft_axis kshape a (ifft_axis kshape c v) = ifft_axis kshape c (ifft_axis kshape a v)"
      using axes by (intro ifft_axis_commute) simp_all
  next
    fix a and v :: "complex list"
    assume "a \<in> set axes" "length v = prod_list kshape"
    then show "length (ifft_axis kshape a v) = prod_list kshape"
      using axes by (simp add: length_ifft_axis)
  qed
  also have "cinner ?W ?Z = cinner (scale_data b s x) ?G"
    using len dn dk nr kr _ lZ by (rule cinner_scatter_gather) (simp add: lx)
  also have "\<dots> = cinner x (scale_data b s ?G)"
    using re ls lx by (rule cinner_scale) simp
  finally have "cinner (spmm p b ?V) y =
      prod_list (map (\<lambda>a. of_nat (kshape ! a)) axes) * cinner x (scale_data b s ?G)" .
  then show ?thesis
    by (simp add: forward_data_def adjoint_data_def ks ns of_nat_prod_list comp_def)
qed

section \<open>C3: what \<open>plan\<close> checks\<close>

lemma plan_builder_fails:
  "helper_plan helper om N0 K0 J0 (plan_axes N0 a) = Inl e \<Longrightarrow>
   plan helper self om N0 K0 J0 a b =
     (Inl e, self\<lparr>ndims := Some (length N0), ft_axes := Some (plan_axes N0 a)\<rparr>)"
  by (simp add: plan_def Let_def)

lemma plan_batch_ok:
  "length (ravel s) = prod_list (st_Nd d) \<Longrightarrow> \<exists>self'. plan_batch self d s b = (Inr (), self')"
  by (cases b) (simp_all add: plan_batch_def np_reshape_def Let_def)

lemma plan_preindex_fails:
  assumes "helper_plan helper om N0 K0 J0 (plan_axes N0 a) = Inr d" "conforming d"
    "helper_preindex_copy helper (st_Nd d) (st_Kd d) = Inl e"
  shows "fst (plan helper self om N0 K0 J0 a b) = Inl e"
proof -
  from assms(2) obtain s p where s: "st_sn d = Some s" "length (ravel s) = prod_list (st_Nd d)"
    and p: "st_p d = Some p"
    by (auto simp: conforming_def split: option.splits)
  obtain self' where "plan_batch (self\<lparr>ndims := Some (length N0), ft_axes := Some (plan_axes N0 a),
      st := Some d, Nd := Some (st_Nd d), Kd := Some (st_Kd d), sn := Some (s\<lparr>adtype := dtype self\<rparr>)\<rparr>) d (s\<lparr>adtype := dtype self\<rparr>) b = (Inr (), self')"
    using plan_batch_ok[of "s\<lparr>adtype := dtype self\<rparr>" d] s by auto
  then show ?thesis
    using assms(1,3) s p
    by (simp add: plan_def Let_def plan_matrices_def)
qed

lemma plan_returns_0:
  assumes "helper_plan helper om N0 K0 J0 (plan_axes N0 a) = Inr d" "conforming d"
    "helper_preindex_copy helper (st_Nd d) (st_Kd d) = Inr tabs"
  shows "fst (plan helper self om N0 K0 J0 a b) = Inr 0"
proof -
  from assms(2) obtain s p where s: "st_sn d = Some s" "length (ravel s) = prod_list (st_Nd d)"
    and p: "st_p d = Some p"
    by (auto simp: conforming_def split: option.splits)
  obtain self' where "plan_batch (self\<lparr>ndims := Some (length N0), ft_axes := Some (plan_axes N0 a),
      st := Some d, Nd := Some (st_Nd d), Kd := Some (st_Kd d), sn := Some (s\<lparr>adtype := dtype self\<rparr>)\<rparr>) d (s\<lparr>adtype := dtype self\<rparr>) b = (Inr (), self')"
    using plan_batch_ok[of "s\<lparr>adtype := dtype self\<rparr>" d] s by auto
  then show ?thesis
    using assms(1,3) s p
    by (cases tabs) (simp add: plan_def Let_def plan_matrices_def)
qed

text \<open>
  C3 (as stated, refuted). \<open>plan\<close> has no validation of its own. With the builder
  of the small operator, \<open>plan\<close> called with \<open>batch = 0\<close> returns the status 0; and
  when the builder raises, \<open>plan\<close> has already assigned \<open>ndims\<close> and
  \<open>ft_axes\<close>, which the object keeps.
\<close>

theorem plan_validation_counterexample:
  "fst (plan demo_helper NUFFT_cpu_init [[0], [1]] [1] [2] [1] None (Some 0)) = Inr 0 \<and>
   plan demo_failing NUFFT_cpu_init [[0], [1]] [1] [2] [1] None None =
     (Inl (BuilderError ''plan''), NUFFT_cpu_init\<lparr>ndims := Some 1, ft_axes := Some [0]\<rparr>) \<and>
   NUFFT_cpu_init\<lparr>ndims := Some 1, ft_axes := Some [0]\<rparr> \<noteq> NUFFT_cpu_init"
  by (simp add: plan_def plan_axes_def demo_helper_def demo_failing_def demo_st_def demo_p_def plan_batch_def
      plan_matrices_def np_reshape_def Let_def preindex_copy_def NUFFT_cpu_init_def)

text \<open>
  C3 (amended). \<open>plan\<close> raises what the builder \<open>helper.plan\<close> or
  \<open>helper.preindex_copy\<close> raises, unchanged; when the builder raises, the object keeps
  the two attributes assigned before the call. When the builder returns a conforming
  result and \<open>preindex_copy\<close> returns, \<open>plan\<close> returns the status 0, for every
  \<open>batch\<close> (0 included) and whatever \<open>om\<close>, \<open>Nd\<close>, \<open>Kd\<close> and \<open>Jd\<close> are.
\<close>

theorem plan_status:
  "(helper_plan helper om N0 K0 J0 (plan_axes N0 a) = Inl e \<longrightarrow>
      plan helper self om N0 K0 J0 a b =
        (Inl e, self\<lparr>ndims := Some (length N0), ft_axes := Some (plan_axes N0 a)\<rparr>)) \<and>
   (helper_plan helper om N0 K0 J0 (plan_axes N0 a) = Inr d \<and> conforming d \<and>
    helper_preindex_copy helper (st_Nd d) (st_Kd d) = Inl e \<longrightarrow>
      fst (plan helper self om N0 K0 J0 a b) = Inl e) \<and>
   (helper_plan helper om N0 K0 J0 (plan_axes N0 a) = Inr d \<and> conforming d \<and>
    helper_preindex_copy helper (st_Nd d) (st_Kd d) = Inr tabs \<longrightarrow>
      fst (plan helper self om N0 K0 J0 a b) = Inr 0)"
proof (intro conjI impI)
  assume "helper_plan helper om N0 K0 J0 (plan_axes N0 a) = Inl e"
  then show "plan helper self om N0 K0 J0 a b =
      (Inl e, self\<lparr>ndims := Some (length N0), ft_axes := Some (plan_axes N0 a)\<rparr>)"
    by (rule plan_builder_fails)
next
  assume "helper_plan helper om N0 K0 J0 (plan_axes N0 a) = Inr d \<and> conforming d \<and>
    helper_preindex_copy helper (st_Nd d) (st_Kd d) = Inl e"
  then show "fst (plan helper self om N0 K0 J0 a b) = Inl e"
    using plan_preindex_fails by blast
next
  assume "helper_plan helper om N0 K0 J0 (plan_axes N0 a) = Inr d \<and> conforming d \<and>
    helper_preindex_copy helper (st_Nd d) (st_Kd d) = Inr tabs"
  then show "fst (plan helper self om N0 K0 J0 a b) = Inr 0"
    using plan_returns_0 by blast
qed

lemma demo_conforming: "conforming demo_st"
  by (simp add: conforming_def demo_st_def demo_p_def matrix_ok_def)

theorem plan_status_witness:
  "helper_plan demo_failing [[0], [1]] [1] [2] [1] (plan_axes [1] None) = Inl (BuilderError ''plan'') \<and>
   plan demo_failing NUFFT_cpu_init [[0], [1]] [1] [2] [1] None None =
     (Inl (BuilderError ''plan''), NUFFT_cpu_init\<lparr>ndims := Some 1, ft_axes := Some [0]\<rparr>) \<and>
   helper_plan demo_helper [[0], [1]] [1] [2] [1] (plan_axes [1] None) = Inr demo_st \<and>
   conforming demo_st \<and>
   helper_preindex_copy demo_no_tables [1] [2] = Inl (BuilderError ''preindex_copy'') \<and>
   fst (plan demo_no_tables NUFFT_cpu_init [[0], [1]] [1] [2] [1] None None) =
     Inl (BuilderError ''preindex_copy'') \<and>
   helper_preindex_copy demo_helper [1] [2] = Inr ([0], [0], 1) \<and>
   fst (plan demo_helper NUFFT_cpu_init [[0], [1]] [1] [2] [1] None (Some 0)) = Inr 0"
proof -
  have a: "helper_plan demo_failing [[0], [1]] [1] [2] [1] (plan_axes [1] None) = Inl (BuilderError ''plan'')"
    by (simp add: demo_failing_def)
  have b: "helper_plan demo_helper [[0], [1]] [1] [2] [1] (plan_axes [1] None) = Inr demo_st"
    "helper_plan demo_no_tables [[0], [1]] [1] [2] [1] (plan_axes [1] None) = Inr demo_st"
    by (simp_all add: demo_helper_def demo_no_tables_def)
  have c: "helper_preindex_copy demo_no_tables (st_Nd demo_st) (st_Kd demo_st) = Inl (BuilderError ''preindex_copy'')"
    "helper_preindex_copy demo_no_tables [1] [2] = Inl (BuilderError ''preindex_copy'')"
    by (simp_all add: demo_no_tables_def)
  have d: "helper_preindex_copy demo_helper (st_Nd demo_st) (st_Kd demo_st) = Inr ([0], [0], 1)"
    "helper_preindex_copy demo_helper [1] [2] = Inr ([0], [0], 1)"
    by (simp_all add: demo_helper_def demo_st_def preindex_copy_def)
  have ax: "plan_axes [n] None = [0]" for n :: nat by (simp add: plan_axes_def)
  show ?thesis
    using a b c d demo_conforming
      plan_status[of demo_failing "[[0], [1]]" "[1]" "[2]" "[1]" None "BuilderError ''plan''" NUFFT_cpu_init None]
      plan_status[of demo_no_tables "[[0], [1]]" "[1]" "[2]" "[1]" None "BuilderError ''preindex_copy''" NUFFT_cpu_init None demo_st]
      plan_status[of demo_helper "[[0], [1]]" "[1]" "[2]" "[1]" None _ NUFFT_cpu_init "Some 0" demo_st "([0], [0], 1)"]
    by (simp add: ax)
qed

section \<open>C9: the weighting \<open>W\<close> of \<open>selfadjoint2\<close>\<close>

lemma demo_op_a1_val:
  "demo_op_a1 =
     \<lparr>dtype = Complex64, debug = 0, ndims = Some 1, ft_axes = Some [0],
      st = Some \<lparr>st_Nd = [1], st_Kd = [2], st_Jd = [1], st_M = 1, st_p = None, st_sn = None\<rparr>,
      Nd = Some [1], Kd = Some [2],
      sn = Some \<lparr>shape = [1], adtype = Complex64, ravel = [1]\<rparr>,
      parallel_flag = Some 0, batch = Some 1, multi_Nd = Some [1], multi_Kd = Some [2],
      multi_M = Some [1], multi_prodKd = Some [Some 2],
      sp = Some \<lparr>nrows = 1, ncols = 2, sdtype = Complex64, entries = [(0, 0, 10)]\<rparr>,
      spH = Some \<lparr>nrows = 2, ncols = 1, sdtype = Complex64, entries = [(0, 0, 10)]\<rparr>,
      Kdprod = Some 2, Jdprod = Some 1, NdCPUorder = Some [0], KdCPUorder = Some [0],
      nelem = Some 1, W = Some demo_w5\<rparr>"
  apply (simp add: demo_op_a1_def demo_op_a_def plan_eval demo_builder_def demo_helper_def demo_st_def demo_pa_def NUFFT_cpu_init_def)
  apply (simp add: selfadjoint2_def selfadjoint2_try_def precompute_sp_def stage_eval dft_eval sqrt_abs2_cmod demo_x_def demo_w5_def)
  done

lemma demo_op_b_val:
  "demo_op_b =
     \<lparr>dtype = Complex64, debug = 0, ndims = Some 1, ft_axes = Some [0],
      st = Some \<lparr>st_Nd = [1], st_Kd = [2], st_Jd = [1], st_M = 1, st_p = None, st_sn = None\<rparr>,
      Nd = Some [1], Kd = Some [2],
      sn = Some \<lparr>shape = [1], adtype = Complex64, ravel = [1]\<rparr>,
      parallel_flag = Some 0, batch = Some 1, multi_Nd = Some [1], multi_Kd = Some [2],
      multi_M = Some [1], multi_prodKd = Some [Some 2],
      sp = Some \<lparr>nrows = 1, ncols = 2, sdtype = Complex64, entries = [(0, 0, 4)]\<rparr>,
      spH = Some \<lparr>nrows = 2, ncols = 1, sdtype = Complex64, entries = [(0, 0, 4)]\<rparr>,
      Kdprod = Some 2, Jdprod = Some 1, NdCPUorder = Some [0], KdCPUorder = Some [0],
      nelem = Some 1, W = Some demo_w5\<rparr>"
  by (simp add: demo_op_b_def demo_op_a1_val plan_eval demo_builder_def demo_helper_def
      demo_st_def demo_pb_def)

lemma xx2k_loop_W [simp]: "xx2k_loop (self\<lparr>W := v\<rparr>) src bats buf = xx2k_loop self src bats buf"
  by (induction bats arbitrary: buf) simp_all

lemma k2xx_loop_W [simp]: "k2xx_loop (self\<lparr>W := v\<rparr>) src bats buf = k2xx_loop self src bats buf"
  by (induction bats arbitrary: buf) simp_all

lemma xx2k_W [simp]: "xx2k fd (self\<lparr>W := v\<rparr>) = xx2k fd self"
  by (rule ext) (simp add: xx2k_def xx2k_scatter_def)

lemma k2xx_W [simp]: "k2xx fd (self\<lparr>W := v\<rparr>) = k2xx fd self"
  by (rule ext) (simp add: k2xx_def k2xx_gather_def)

lemma x2xx_W [simp]: "x2xx (self\<lparr>W := v\<rparr>) = x2xx self"
  by (rule ext) (simp add: x2xx_def)

lemma xx2x_W [simp]: "xx2x (self\<lparr>W := v\<rparr>) = xx2x self"
  by (rule ext) (simp add: xx2x_def)

lemma vec2k_W [simp]: "vec2k (self\<lparr>W := v\<rparr>) = vec2k self"
  by (rule ext) (simp add: vec2k_def)

lemma y2k_W [simp]: "y2k (self\<lparr>W := v\<rparr>) = y2k self"
  by (rule ext) (simp add: y2k_def y2vec_def)

lemma adjoint_W [simp]: "adjoint fd (self\<lparr>W := v\<rparr>) = adjoint fd self"
  by (rule ext) (simp add: adjoint_def)

lemma precompute_sp_cases:
  "precompute_sp fd self = (Inl e, s') \<Longrightarrow> s' = self"
  "precompute_sp fd self = (Inr u, s') \<Longrightarrow>
     \<exists>w. s' = self\<lparr>W := Some w\<rparr> \<and> precompute_sp fd s' = (Inr (), s')"
  by (auto simp: precompute_sp_def split: sum.splits)

text \<open>
  C9 (as stated, refuted). \<open>demo_op_a1\<close> holds the weighting computed under its first
  plan. Planning it again from another matrix leaves that weighting in place
  (\<open>demo_op_b\<close>): the next call of \<open>selfadjoint2\<close> multiplies by the old weighting
  and does not compute a new one. A call whose input makes the expression raise (an
  empty array: \<open>IndexError\<close>) does replace the weighting, although one was present:
  the computation is triggered by the exception, not by the state of the cache.
\<close>

theorem lazy_weighting_counterexample:
  "W demo_op_a1 = Some demo_w5 \<and> W demo_op_b = Some demo_w5 \<and>
   selfadjoint2 id demo_op_b demo_x =
     (Inr \<lparr>shape = [1], adtype = Complex64, ravel = [5]\<rparr>, demo_op_b) \<and>
   selfadjoint2 id demo_op_b demo_empty = (Inl IndexError, demo_op_b\<lparr>W := Some demo_w2\<rparr>) \<and>
   demo_w2 \<noteq> demo_w5"
  apply (simp add: demo_op_a1_val)
  apply (simp add: demo_op_b_val)
  apply (simp add: selfadjoint2_def selfadjoint2_try_def precompute_sp_def stage_eval dft_eval sqrt_abs2_cmod
      demo_x_def demo_w5_def demo_w2_def demo_empty_def)
  done

lemma demo_op_b_empty:
  "selfadjoint2_try id demo_op_b demo_empty = Inl IndexError"
  "precompute_sp id demo_op_b = (Inr (), demo_op_b\<lparr>W := Some demo_w2\<rparr>)"
  "selfadjoint2_try id (demo_op_b\<lparr>W := Some demo_w2\<rparr>) demo_empty = Inl IndexError"
  by (simp_all add: demo_op_b_val selfadjoint2_try_def precompute_sp_def stage_eval dft_eval
      sqrt_abs2_cmod demo_w5_def demo_w2_def demo_empty_def)

text \<open>
  C9 (amended). \<open>selfadjoint2\<close> has no state check. It runs \<open>_precompute_sp\<close> when,
  and only when, its expression \<open>k2xx(W * xx2k(x))\<close> raises, whatever the exception and
  whether or not a weighting is present; it then evaluates the expression once more
  with the object \<open>_precompute_sp\<close> leaves. \<open>_precompute_sp\<close> assigns a new \<open>W\<close>
  when it succeeds and leaves the object unchanged when it raises. On an object
  without \<open>W\<close> the expression raises \<open>AttributeError\<close>, so the first use runs
  \<open>_precompute_sp\<close>. When the expression succeeds, its value is returned and the
  object is unchanged. A second call on the same input returns the same result and
  leaves the object as the first call left it. \<open>plan\<close> never touches \<open>W\<close>.
\<close>

theorem lazy_weighting_cache:
  "(selfadjoint2_try fd self x = Inl e \<longrightarrow>
      selfadjoint2 fd self x =
        (case precompute_sp fd self of
           (Inl e', s) \<Rightarrow> (Inl e', s)
         | (Inr u, s) \<Rightarrow> (selfadjoint2_try fd s x, s))) \<and>
   (precompute_sp fd self = (Inl e', s') \<longrightarrow> s' = self) \<and>
   (precompute_sp fd self = (Inr u, s') \<longrightarrow> (\<exists>w. s' = self\<lparr>W := Some w\<rparr>)) \<and>
   (W self = None \<longrightarrow>
      selfadjoint2_try fd self x = Inl AttributeError \<and>
      selfadjoint2 fd self x =
        (case precompute_sp fd self of
           (Inl e, s) \<Rightarrow> (Inl e, s)
         | (Inr u, s) \<Rightarrow> (selfadjoint2_try fd s x, s))) \<and>
   (selfadjoint2_try fd self x = Inr r \<longrightarrow> selfadjoint2 fd self x = (Inr r, self)) \<and>
   (selfadjoint2 fd self x = (r1, s1) \<longrightarrow> selfadjoint2 fd s1 x = (r1, s1)) \<and>
   W (snd (plan helper self om N0 K0 J0 a b)) = W self"
proof (intro conjI impI)
  assume "selfadjoint2_try fd self x = Inl e"
  then show "selfadjoint2 fd self x =
        (case precompute_sp fd self of
           (Inl e', s) \<Rightarrow> (Inl e', s)
         | (Inr u, s) \<Rightarrow> (selfadjoint2_try fd s x, s))"
    by (simp add: selfadjoint2_def)
next
  assume "precompute_sp fd self = (Inl e', s')"
  then show "s' = self" by (rule precompute_sp_cases(1))
next
  assume "precompute_sp fd self = (Inr u, s')"
  then show "\<exists>w. s' = self\<lparr>W := Some w\<rparr>"
    using precompute_sp_cases(2)[of fd self u s'] by blast
next
  assume "W self = None"
  then show "selfadjoint2_try fd self x = Inl AttributeError"
    by (simp add: selfadjoint2_try_def)
next
  assume "W self = None"
  then show "selfadjoint2 fd self x =
        (case precompute_sp fd self of
           (Inl e, s) \<Rightarrow> (Inl e, s)
         | (Inr u, s) \<Rightarrow> (selfadjoint2_try fd s x, s))"
    by (simp add: selfadjoint2_def selfadjoint2_try_def)
next
  assume "selfadjoint2_try fd self x = Inr r"
  then show "selfadjoint2 fd self x = (Inr r, self)"
    by (simp add: selfadjoint2_def)
next
  assume a: "selfadjoint2 fd self x = (r1, s1)"
  show "selfadjoint2 fd s1 x = (r1, s1)"
  proof (cases "selfadjoint2_try fd self x")
    case (Inr r)
    with a have "r1 = Inr r" "s1 = self" by (simp_all add: selfadjoint2_def)
    with Inr show ?thesis by (simp add: selfadjoint2_def)
  next
    case (Inl e)
    obtain q s' where pc: "precompute_sp fd self = (q, s')" by (cases "precompute_sp fd self")
    show ?thesis
    proof (cases q)
      case (Inl e')
      with a pc \<open>selfadjoint2_try fd self x = Inl e\<close> precompute_sp_cases(1)[of fd self e' s']
      show ?thesis by (simp add: selfadjoint2_def)
    next
      case (Inr u)
      with pc precompute_sp_cases(2)[of fd self u s']
      have again: "precompute_sp fd s' = (Inr (), s')" by auto
      from a pc Inr \<open>selfadjoint2_try fd self x = Inl e\<close>
      have r1: "r1 = selfadjoint2_try fd s' x" "s1 = s'" by (auto simp: selfadjoint2_def)
      show ?thesis
        using again r1 by (cases "selfadjoint2_try fd s' x") (simp_all add: selfadjoint2_def)
    qed
  qed
next
  show "W (snd (plan helper self om N0 K0 J0 a b)) = W self" by (rule plan_keeps_W)
qed

text \<open>
  Instances: the first use on \<open>demo_op_a\<close> (no weighting yet) computes the weighting
  and the second call returns the same value and object; on \<open>demo_op_b\<close>, which holds
  a weighting, the empty input makes the expression raise \<open>IndexError\<close> and the
  weighting is replaced.
\<close>

theorem lazy_weighting_cache_witness:
  "W demo_op_a = None \<and> precompute_sp id demo_op_a = (Inr (), demo_op_a1) \<and>
   selfadjoint2_try id demo_op_a demo_x = Inl AttributeError \<and>
   selfadjoint2 id demo_op_a demo_x =
     (Inr \<lparr>shape = [1], adtype = Complex64, ravel = [5]\<rparr>, demo_op_a1) \<and>
   selfadjoint2_try id demo_op_a1 demo_x = Inr \<lparr>shape = [1], adtype = Complex64, ravel = [5]\<rparr> \<and>
   selfadjoint2 id demo_op_a1 demo_x =
     (Inr \<lparr>shape = [1], adtype = Complex64, ravel = [5]\<rparr>, demo_op_a1) \<and>
   W demo_op_b = W demo_op_a1 \<and>
   W demo_op_b = Some demo_w5 \<and>
   selfadjoint2_try id demo_op_b demo_empty = Inl IndexError \<and>
   precompute_sp id demo_op_b = (Inr (), demo_op_b\<lparr>W := Some demo_w2\<rparr>) \<and>
   selfadjoint2 id demo_op_b demo_empty = (Inl IndexError, demo_op_b\<lparr>W := Some demo_w2\<rparr>)"
proof -
  have a: "demo_op_a = demo_op_a1\<lparr>W := None\<rparr>"
    by (simp add: demo_op_a1_val)
       (simp add: demo_op_a_def plan_eval demo_builder_def demo_helper_def demo_st_def
         demo_pa_def NUFFT_cpu_init_def)
  have w: "W demo_op_a = None" by (simp add: a)
  have t: "selfadjoint2_try id demo_op_a1 demo_x =
      Inr \<lparr>shape = [1], adtype = Complex64, ravel = [5]\<rparr>"
    by (simp add: demo_op_a1_val selfadjoint2_try_def stage_eval dft_eval demo_x_def demo_w5_def)
  have p: "precompute_sp id demo_op_a = (Inr (), demo_op_a1)"
    by (simp add: a) (simp add: demo_op_a1_val precompute_sp_def stage_eval dft_eval sqrt_abs2_cmod demo_w5_def)
  have b: "demo_op_b = snd (plan (demo_builder demo_pb) demo_op_a1 [[0]] [1] [2] [1] None None)"
    by (simp add: demo_op_b_def)
  have wb: "W demo_op_b = Some demo_w5" by (simp add: demo_op_b_val)
  show ?thesis
    using w t p wb demo_op_b_empty
      lazy_weighting_cache[where fd = id and self = demo_op_a and x = demo_x
        and helper = "demo_builder demo_pb" and om = "[[0]]" and ?N0.0 = "[1]" and ?K0.0 = "[2]"
        and ?J0.0 = "[1]" and a = None and b = None]
      lazy_weighting_cache[where fd = id and self = demo_op_a1 and x = demo_x
        and r = "\<lparr>shape = [1], adtype = Complex64, ravel = [5]\<rparr>"
        and helper = "demo_builder demo_pb" and om = "[[0]]" and ?N0.0 = "[1]" and ?K0.0 = "[2]"
        and ?J0.0 = "[1]" and a = None and b = None]
      lazy_weighting_cache[where fd = id and self = demo_op_b and x = demo_empty
        and e = IndexError]
    by (simp add: b)
qed

section \<open>C4: inputs of another shape\<close>

lemma np_mul_no_broadcast:
  "broadcast_shapes (shape a) (shape b) = None \<Longrightarrow> np_mul a b = Inl ValueError"
  by (simp add: np_mul_def)

lemma sp_dot_mismatch:
  "shape v \<noteq> [] \<Longrightarrow> hd (shape v) \<noteq> ncols A \<Longrightarrow> sp_dot A v = Inl ValueError"
  by (auto simp: sp_dot_def split: list.splits)

text \<open>
  C4 (as stated, refuted). The operator \<open>demo_op\<close> is planned for images of shape
  \<open>(1,)\<close> and data of shape \<open>(2,)\<close>. \<open>forward\<close> and \<open>selfadjoint\<close> accept an
  input of shape \<open>(3, 1)\<close>: the product with \<open>sn\<close> broadcasts and the reorder table
  reads its first element only. \<open>adjoint\<close> accepts an input of shape \<open>(2, 1)\<close>. No
  exception is raised.
\<close>

theorem shape_check_counterexample:
  "multi_Nd demo_op = Some [1] \<and> shape demo_x31 = [3, 1] \<and>
   forward id demo_op demo_x31 = Inr \<lparr>shape = [2], adtype = Complex64, ravel = [1 + \<i>, 2]\<rparr> \<and>
   selfadjoint id demo_op demo_x31 = Inr \<lparr>shape = [1], adtype = Complex64, ravel = [3]\<rparr> \<and>
   multi_M demo_op = Some [2] \<and> shape demo_y21 = [2, 1] \<and>
   adjoint id demo_op demo_y21 = Inr \<lparr>shape = [1], adtype = Complex64, ravel = [(3 - \<i>) / 2]\<rparr>"
  by (simp add: demo_eval stage_eval dft_eval demo_x31_def demo_y21_def algebra_simps)

text \<open>
  C4 (amended). The methods have no shape check of their own. \<open>forward\<close> and
  \<open>selfadjoint\<close> raise numpy's \<open>ValueError\<close> in their first stage, the product with
  \<open>sn\<close>, when the input's shape cannot be broadcast against the shape of \<open>sn\<close>;
  \<open>adjoint\<close> raises \<open>ValueError\<close> in its first stage, the product with \<open>spH\<close>, when
  the input has at least one axis and its first axis is not of size \<open>M\<close>.
\<close>

theorem shape_errors:
  assumes pl: "planned self N K M t"
  shows "(broadcast_shapes (shape x) (N @ map (\<lambda>_. 1) t) = None \<longrightarrow>
            x2xx self x = Inl ValueError \<and> forward fd self x = Inl ValueError \<and>
            selfadjoint fd self x = Inl ValueError) \<and>
         (shape y \<noteq> [] \<and> hd (shape y) \<noteq> M \<longrightarrow>
            y2vec self y = Inl ValueError \<and> adjoint fd self y = Inl ValueError)"
proof (intro conjI impI)
  from pl obtain s where s: "sn self = Some s" "shape s = N @ map (\<lambda>_. 1) t"
    by (auto simp: planned_def split: option.splits)
  assume "broadcast_shapes (shape x) (N @ map (\<lambda>_. 1) t) = None"
  then show x: "x2xx self x = Inl ValueError"
    using s by (simp add: x2xx_def np_mul_no_broadcast)
  then show "forward fd self x = Inl ValueError" "selfadjoint fd self x = Inl ValueError"
    by (simp_all add: forward_def selfadjoint_def)
next
  from pl obtain p where p: "spH self = Some (getH p)" "nrows p = M"
    by (auto simp: planned_def split: option.splits)
  assume "shape y \<noteq> [] \<and> hd (shape y) \<noteq> M"
  then show y: "y2vec self y = Inl ValueError"
    using p by (simp add: y2vec_def sp_dot_mismatch)
  then show "adjoint fd self y = Inl ValueError"
    by (simp add: adjoint_def y2k_def)
qed

theorem shape_errors_witness:
  "planned demo_op2 [2] [4] 1 [] \<and>
   broadcast_shapes (shape demo_x3) ([2] @ map (\<lambda>_. 1) []) = None \<and>
   x2xx demo_op2 demo_x3 = Inl ValueError \<and> forward id demo_op2 demo_x3 = Inl ValueError \<and>
   selfadjoint id demo_op2 demo_x3 = Inl ValueError \<and>
   shape demo_y3 \<noteq> [] \<and> hd (shape demo_y3) \<noteq> 1 \<and>
   y2vec demo_op2 demo_y3 = Inl ValueError \<and> adjoint id demo_op2 demo_y3 = Inl ValueError"
proof -
  have b: "broadcast_shapes (shape demo_x3) ([2] @ map (\<lambda>_. 1) []) = None"
    by (simp add: broadcast_shapes_def demo_x3_def)
  have y: "shape demo_y3 \<noteq> [] \<and> hd (shape demo_y3) \<noteq> 1"
    by (simp add: demo_y3_def)
  show ?thesis
    using demo_op2_planned b y shape_errors[OF demo_op2_planned, where x = demo_x3 and y = demo_y3 and fd = id] by simp
qed

section \<open>C5: element types along the pipeline\<close>

lemma x2xx_dtype:
  "x2xx self x = Inr xx \<Longrightarrow> sn self = Some s \<Longrightarrow> adtype xx = result_type (adtype x) (adtype s)"
  by (auto simp: x2xx_def np_mul_def split: option.splits)

lemma xx2k_dtype: "xx2k fd self xx = Inr k \<Longrightarrow> adtype k = fd (dtype self)"
  by (auto simp: xx2k_def xx2k_scatter_def ebind_eq_Inr fftn_def np_zeros_def Let_def
      split: if_splits)

lemma k2xx_dtype: "k2xx fd self k = Inr xx \<Longrightarrow> adtype xx = dtype self"
  by (auto simp: k2xx_def k2xx_gather_def ebind_eq_Inr np_zeros_def Let_def)

lemma sp_dot_dtype: "sp_dot A v = Inr y \<Longrightarrow> adtype y = result_type (sdtype A) (adtype v)"
  by (auto simp: sp_dot_def split: list.splits if_splits)

lemma np_reshape_dtype: "np_reshape a s = Inr b \<Longrightarrow> adtype b = adtype a"
  by (auto simp: np_reshape_def split: if_splits)

lemma k2y_dtype:
  "k2y self k = Inr y \<Longrightarrow> sp self = Some p \<Longrightarrow> adtype y = result_type (sdtype p) (adtype k)"
  by (auto simp: k2y_def k2vec_def vec2y_def ebind_eq_Inr dest!: sp_dot_dtype np_reshape_dtype
      split: option.splits)

text \<open>
  C5 (as stated, refuted). The operator is configured with \<open>complex64\<close>. The scaling
  stage multiplies the input by \<open>sn\<close> without converting it: for a \<open>float64\<close> input
  its output is \<open>complex128\<close>. The output of \<open>xx2k\<close> has the element type that
  \<open>numpy.fft.fftn\<close> returns; with the rule of NumPy before 2.0 (always double
  precision) it is \<open>complex128\<close> for a \<open>complex64\<close> input.
\<close>

theorem single_precision_counterexample:
  "dtype demo_op = Complex64 \<and>
   x2xx demo_op demo_x64 = Inr \<lparr>shape = [1], adtype = Complex128, ravel = [1]\<rparr> \<and>
   xx2k (\<lambda>d. Complex128) demo_op demo_x =
     Inr \<lparr>shape = [2], adtype = Complex128, ravel = [1, 1]\<rparr>"
  by (simp add: demo_eval stage_eval dft_eval demo_x64_def)

text \<open>
  C5 (amended). For an operator whose \<open>sn\<close> has the configured element type (as
  \<open>plan\<close> stores it): the outputs of \<open>k2xx\<close>, \<open>adjoint\<close> and \<open>selfadjoint\<close> have
  the configured element type, whatever the input's; the output of the scaling stage
  has the promotion of the input's type and the configured one; the output of \<open>xx2k\<close>
  has the type \<open>numpy.fft.fftn\<close> returns for an array of the configured type
  (\<open>fd\<close>), and the output of \<open>forward\<close> the promotion of the sparse matrix's type
  and that one.
\<close>

theorem dtype_flow:
  assumes s: "sn self = Some s" "adtype s = dtype self" and p: "sp self = Some p"
  shows "(x2xx self x = Inr xx \<longrightarrow> adtype xx = result_type (adtype x) (dtype self)) \<and>
         (xx2k fd self xx = Inr k \<longrightarrow> adtype k = fd (dtype self)) \<and>
         (forward fd self x = Inr y \<longrightarrow> adtype y = result_type (sdtype p) (fd (dtype self))) \<and>
         (k2xx fd self k' = Inr xx' \<longrightarrow> adtype xx' = dtype self) \<and>
         (adjoint fd self y' = Inr x' \<longrightarrow> adtype x' = dtype self) \<and>
         (selfadjoint fd self x = Inr x'' \<longrightarrow> adtype x'' = dtype self)"
proof (intro conjI impI)
  assume "x2xx self x = Inr xx"
  then show "adtype xx = result_type (adtype x) (dtype self)"
    using x2xx_dtype s by fastforce
next
  assume "xx2k fd self xx = Inr k"
  then show "adtype k = fd (dtype self)" by (rule xx2k_dtype)
next
  assume "forward fd self x = Inr y"
  then obtain xx0 k0 where "xx2k fd self xx0 = Inr k0" "k2y self k0 = Inr y"
    by (auto simp: forward_def ebind_eq_Inr)
  then show "adtype y = result_type (sdtype p) (fd (dtype self))"
    using xx2k_dtype k2y_dtype p by fastforce
next
  assume "k2xx fd self k' = Inr xx'"
  then show "adtype xx' = dtype self" by (rule k2xx_dtype)
next
  assume "adjoint fd self y' = Inr x'"
  then obtain k0 xx0 where "k2xx fd self k0 = Inr xx0" "x2xx self xx0 = Inr x'"
    by (auto simp: adjoint_def xx2x_def ebind_eq_Inr)
  then show "adtype x' = dtype self"
    using k2xx_dtype[of fd self k0 xx0] x2xx_dtype[of self xx0 x' s] s by simp
next
  assume "selfadjoint fd self x = Inr x''"
  then obtain k0 xx0 where "k2xx fd self k0 = Inr xx0" "x2xx self xx0 = Inr x''"
    by (auto simp: selfadjoint_def xx2x_def ebind_eq_Inr)
  then show "adtype x'' = dtype self"
    using k2xx_dtype[of fd self k0 xx0] x2xx_dtype[of self xx0 x'' s] s by simp
qed

theorem dtype_flow_witness:
  "sn demo_op = Some \<lparr>shape = [1], adtype = Complex64, ravel = [1]\<rparr> \<and>
   dtype demo_op = Complex64 \<and> sp demo_op = Some demo_p \<and>
   x2xx demo_op demo_x = Inr demo_x \<and>
   xx2k id demo_op demo_x = Inr \<lparr>shape = [2], adtype = Complex64, ravel = [1, 1]\<rparr> \<and>
   forward id demo_op demo_x = Inr \<lparr>shape = [2], adtype = Complex64, ravel = [1 + \<i>, 2]\<rparr> \<and>
   k2xx id demo_op demo_k = Inr \<lparr>shape = [1], adtype = Complex64, ravel = [3 / 2]\<rparr> \<and>
   adjoint id demo_op \<lparr>shape = [2], adtype = Complex128, ravel = [1, 1]\<rparr> =
     Inr \<lparr>shape = [1], adtype = Complex64, ravel = [(3 - \<i>) / 2]\<rparr> \<and>
   selfadjoint id demo_op demo_x = Inr \<lparr>shape = [1], adtype = Complex64, ravel = [3]\<rparr> \<and>
   adtype demo_x = result_type (adtype demo_x) (dtype demo_op) \<and>
   Complex64 = result_type (sdtype demo_p) (id (dtype demo_op))"
proof -
  have h: "sn demo_op = Some \<lparr>shape = [1], adtype = Complex64, ravel = [1]\<rparr>"
    "adtype \<lparr>shape = [1], adtype = Complex64, ravel = [1::complex]\<rparr> = dtype demo_op"
    "sp demo_op = Some demo_p"
    by (simp_all add: demo_op_val)
  have v: "x2xx demo_op demo_x = Inr demo_x"
    "xx2k id demo_op demo_x = Inr \<lparr>shape = [2], adtype = Complex64, ravel = [1, 1]\<rparr>"
    "forward id demo_op demo_x = Inr \<lparr>shape = [2], adtype = Complex64, ravel = [1 + \<i>, 2]\<rparr>"
    "k2xx id demo_op demo_k = Inr \<lparr>shape = [1], adtype = Complex64, ravel = [3 / 2]\<rparr>"
    "adjoint id demo_op \<lparr>shape = [2], adtype = Complex128, ravel = [1, 1]\<rparr> =
       Inr \<lparr>shape = [1], adtype = Complex64, ravel = [(3 - \<i>) / 2]\<rparr>"
    "selfadjoint id demo_op demo_x = Inr \<lparr>shape = [1], adtype = Complex64, ravel = [3]\<rparr>"
    by (simp_all add: demo_eval stage_eval dft_eval algebra_simps)
  show ?thesis
    using h v dtype_flow[OF h, of demo_x demo_x id
        "\<lparr>shape = [2], adtype = Complex64, ravel = [1, 1]\<rparr>"
        "\<lparr>shape = [2], adtype = Complex64, ravel = [1 + \<i>, 2]\<rparr>" demo_k
        "\<lparr>shape = [1], adtype = Complex64, ravel = [3 / 2]\<rparr>"
        "\<lparr>shape = [2], adtype = Complex128, ravel = [1, 1]\<rparr>"
        "\<lparr>shape = [1], adtype = Complex64, ravel = [(3 - \<i>) / 2]\<rparr>"
        "\<lparr>shape = [1], adtype = Complex64, ravel = [3]\<rparr>"]
    by simp
qed

section \<open>C6: zero input\<close>

text \<open>
  C6. For a planned operator, \<open>forward\<close> of the all-zeros array of the planned image
  shape is the all-zeros array of the planned data shape, and \<open>adjoint\<close> of the
  all-zeros array of the planned data shape is the all-zeros array of the planned image
  shape (shapes \<open>Nd\<close> and \<open>(M,)\<close>, with the batch axis when there is one), over exact
  arithmetic and whatever the element type of the input.
\<close>

theorem zero_input:
  assumes pl: "planned self N K M t"
  shows "(\<exists>d'. forward fd self (np_zeros (N @ t) d) = Inr (np_zeros (M # t) d')) \<and>
         (\<exists>d'. adjoint fd self (np_zeros (M # t) d) = Inr (np_zeros (N @ t) d'))"
proof -
  from pl obtain s p axes n_order k_order where at:
    "length t \<le> 1" "length N = length K" "K \<noteq> []"
    "batch self = Some (prod_list t)" "multi_Nd self = Some (N @ t)"
    "multi_Kd self = Some (K @ t)" "multi_M self = Some (M # t)"
    "multi_prodKd self = Some (map Some (prod_list K # t))"
    "sn self = Some s" "shape s = N @ map (\<lambda>_. 1) t" "adtype s = dtype self"
    "length (ravel s) = prod_list N"
    "sp self = Some p" "spH self = Some (getH p)" "nrows p = M" "ncols p = prod_list K"
    "matrix_ok p"
    "ft_axes self = Some axes" "\<forall>ax \<in> set axes. ax < length K \<and> K ! ax \<noteq> 0"
    "NdCPUorder self = Some n_order" "KdCPUorder self = Some k_order"
    "length n_order = length k_order" "\<forall>i \<in> set n_order. i < prod_list N"
    "\<forall>i \<in> set k_order. i < prod_list K"
    by (rule planned_attrs)
  let ?F = "forward_data (ravel s) n_order k_order (K @ t) axes p (prod_list t)"
  let ?A = "adjoint_data (ravel s) n_order k_order (N @ t) (K @ t) axes p (prod_list t)"
  have linF: "linear_map (prod_list N * prod_list t) (nrows p * prod_list t) ?F"
    using at by (intro linear_map_forward_data) auto
  have linA: "linear_map (nrows p * prod_list t) (prod_list N * prod_list t) ?A"
    using at by (intro linear_map_adjoint_data) auto
  have f: "forward fd self (np_zeros (N @ t) d) =
      Inr \<lparr>shape = M # t, adtype = result_type (sdtype p) (fd (dtype self)),
           ravel = ?F (ravel (np_zeros (N @ t) d))\<rparr>"
    using forward_planned[OF pl, of "np_zeros (N @ t) d" fd] at by (auto simp: np_zeros_def)
  have a: "adjoint fd self (np_zeros (M # t) d) =
      Inr \<lparr>shape = N @ t, adtype = dtype self, ravel = ?A (ravel (np_zeros (M # t) d))\<rparr>"
    using adjoint_planned[OF pl, of "np_zeros (M # t) d" fd] at by (auto simp: np_zeros_def)
  have "?F (replicate (prod_list N * prod_list t) 0) = replicate (nrows p * prod_list t) 0"
    by (rule linear_map_zero[OF linF])
  moreover have "?A (replicate (nrows p * prod_list t) 0) = replicate (prod_list N * prod_list t) 0"
    by (rule linear_map_zero[OF linA])
  ultimately show ?thesis
    using f a at(15) by (simp add: np_zeros_def)
qed

theorem zero_input_witness:
  "planned demo_op [1] [2] 2 [] \<and>
   forward id demo_op (np_zeros [1] Complex64) = Inr (np_zeros [2] Complex64) \<and>
   adjoint id demo_op (np_zeros [2] Complex64) = Inr (np_zeros [1] Complex64) \<and>
   planned demo_op2b [2] [4] 1 [3] \<and>
   (\<exists>d'. forward id demo_op2b (np_zeros [2, 3] Float64) = Inr (np_zeros [1, 3] d')) \<and>
   (\<exists>d'. adjoint id demo_op2b (np_zeros [1, 3] Float64) = Inr (np_zeros [2, 3] d'))"
proof -
  have v: "forward id demo_op (np_zeros [1] Complex64) = Inr (np_zeros [2] Complex64)"
    "adjoint id demo_op (np_zeros [2] Complex64) = Inr (np_zeros [1] Complex64)"
    by (simp_all add: demo_eval stage_eval dft_eval numeral_2_eq_2)
  show ?thesis
    using v demo_planned demo_op2b_planned
      zero_input[OF demo_planned, of id Complex64] zero_input[OF demo_op2b_planned, of id Float64]
    by simp
qed

section \<open>C7: linearity of \<open>forward\<close>\<close>

text \<open>
  C7. For a planned operator, complex scalars \<open>a\<close>, \<open>b\<close> and arrays \<open>x1\<close>, \<open>x2\<close> of
  the planned shape (\<open>Nd\<close>, with the batch axis when there is one), \<open>forward\<close>
  returns on each of \<open>x1\<close>, \<open>x2\<close> and \<open>a*x1 + b*x2\<close>, and the third result is
  \<open>a*forward(x1) + b*forward(x2)\<close>, exactly over exact arithmetic.
\<close>

theorem forward_linear:
  assumes pl: "planned self N K M t"
    and x1: "shape x1 = N @ t" "length (ravel x1) = prod_list (N @ t)"
    and x2: "shape x2 = N @ t" "length (ravel x2) = prod_list (N @ t)"
    and x: "shape x = N @ t" "ravel x = lincomb a (ravel x1) b (ravel x2)"
  shows "\<exists>y1 y2 y. forward fd self x1 = Inr y1 \<and> forward fd self x2 = Inr y2 \<and>
           forward fd self x = Inr y \<and>
           shape y1 = M # t \<and> shape y2 = M # t \<and> shape y = M # t \<and>
           ravel y = lincomb a (ravel y1) b (ravel y2)"
proof -
  from pl obtain s p axes n_order k_order where at:
    "length t \<le> 1" "length N = length K" "K \<noteq> []"
    "batch self = Some (prod_list t)" "multi_Nd self = Some (N @ t)"
    "multi_Kd self = Some (K @ t)" "multi_M self = Some (M # t)"
    "multi_prodKd self = Some (map Some (prod_list K # t))"
    "sn self = Some s" "shape s = N @ map (\<lambda>_. 1) t" "adtype s = dtype self"
    "length (ravel s) = prod_list N"
    "sp self = Some p" "spH self = Some (getH p)" "nrows p = M" "ncols p = prod_list K"
    "matrix_ok p"
    "ft_axes self = Some axes" "\<forall>ax \<in> set axes. ax < length K \<and> K ! ax \<noteq> 0"
    "NdCPUorder self = Some n_order" "KdCPUorder self = Some k_order"
    "length n_order = length k_order" "\<forall>i \<in> set n_order. i < prod_list N"
    "\<forall>i \<in> set k_order. i < prod_list K"
    by (rule planned_attrs)
  let ?F = "forward_data (ravel s) n_order k_order (K @ t) axes p (prod_list t)"
  have lx: "length (ravel x) = prod_list (N @ t)" using x x1 x2 by simp
  have lin: "linear_map (prod_list N * prod_list t) (nrows p * prod_list t) ?F"
    using at by (intro linear_map_forward_data) auto
  have f: "forward fd self z = Inr \<lparr>shape = M # t, adtype = result_type (sdtype p) (fd (dtype self)),
                                    ravel = ?F (ravel z)\<rparr>"
    if "shape z = N @ t" "length (ravel z) = prod_list (N @ t)" for z
    using forward_planned[OF pl that, of fd] at by auto
  have "?F (ravel x) = lincomb a (?F (ravel x1)) b (?F (ravel x2))"
    unfolding x(2) using x1 x2 by (intro linear_map_lincomb[OF lin]) simp_all
  then show ?thesis
    using f[OF x1] f[OF x2] f[OF x(1) lx] by simp
qed

theorem forward_linear_witness:
  "planned demo_op [1] [2] 2 [] \<and>
   forward id demo_op demo_x = Inr \<lparr>shape = [2], adtype = Complex64, ravel = [1 + \<i>, 2]\<rparr> \<and>
   forward id demo_op demo_xi = Inr \<lparr>shape = [2], adtype = Complex64, ravel = [\<i> - 1, 2 * \<i>]\<rparr> \<and>
   forward id demo_op demo_x23 =
     Inr \<lparr>shape = [2], adtype = Complex64, ravel = [5 * \<i> - 1, 4 + 6 * \<i>]\<rparr> \<and>
   (\<exists>y1 y2 y. forward id demo_op demo_x = Inr y1 \<and> forward id demo_op demo_xi = Inr y2 \<and>
      forward id demo_op demo_x23 = Inr y \<and>
      shape y1 = [2] \<and> shape y2 = [2] \<and> shape y = [2] \<and>
      ravel y = lincomb 2 (ravel y1) 3 (ravel y2)) \<and>
   planned demo_op2b [2] [4] 1 [3] \<and>
   (\<exists>y1 y2 y. forward id demo_op2b demo_b1 = Inr y1 \<and> forward id demo_op2b demo_b2 = Inr y2 \<and>
      forward id demo_op2b demo_b12 = Inr y \<and>
      shape y1 = [1, 3] \<and> shape y2 = [1, 3] \<and> shape y = [1, 3] \<and>
      ravel y = lincomb 2 (ravel y1) \<i> (ravel y2))"
proof -
  have v: "forward id demo_op demo_x = Inr \<lparr>shape = [2], adtype = Complex64, ravel = [1 + \<i>, 2]\<rparr>"
    "forward id demo_op demo_xi = Inr \<lparr>shape = [2], adtype = Complex64, ravel = [\<i> - 1, 2 * \<i>]\<rparr>"
    "forward id demo_op demo_x23 =
       Inr \<lparr>shape = [2], adtype = Complex64, ravel = [5 * \<i> - 1, 4 + 6 * \<i>]\<rparr>"
    by (simp_all add: demo_eval stage_eval dft_eval demo_xi_def demo_x23_def lincomb_def
        algebra_simps)
  have a: "\<exists>y1 y2 y. forward id demo_op demo_x = Inr y1 \<and> forward id demo_op demo_xi = Inr y2 \<and>
      forward id demo_op demo_x23 = Inr y \<and>
      shape y1 = [2] \<and> shape y2 = [2] \<and> shape y = [2] \<and>
      ravel y = lincomb 2 (ravel y1) 3 (ravel y2)"
    using forward_linear[OF demo_planned, of demo_x demo_xi demo_x23 2 3 id]
    by (simp add: demo_x_def demo_xi_def demo_x23_def)
  have b: "\<exists>y1 y2 y. forward id demo_op2b demo_b1 = Inr y1 \<and> forward id demo_op2b demo_b2 = Inr y2 \<and>
      forward id demo_op2b demo_b12 = Inr y \<and>
      shape y1 = [1, 3] \<and> shape y2 = [1, 3] \<and> shape y = [1, 3] \<and>
      ravel y = lincomb 2 (ravel y1) \<i> (ravel y2)"
    using forward_linear[OF demo_op2b_planned, of demo_b1 demo_b2 demo_b12 2 \<i> id]
    by (simp add: demo_b1_def demo_b2_def demo_b12_def)
  show ?thesis using v a b demo_planned demo_op2b_planned by blast
qed

section \<open>C8: the shape contract\<close>

lemma result_type_complex: "is_complex c \<Longrightarrow> is_complex (result_type d c)"
  by (cases d; cases c) (simp_all add: is_complex_def)

lemma forward_shape:
  assumes pl: "planned self N K M t"
    and x: "shape x = N @ t" "length (ravel x) = prod_list (N @ t)"
  shows "\<exists>y. forward fd self x = Inr y \<and> shape y = M # t \<and>
              length (ravel y) = M * prod_list t \<and>
              (is_complex (fd (dtype self)) \<longrightarrow> is_complex (adtype y))"
proof -
  from pl obtain p where p: "sp self = Some p" "nrows p = M"
    by (auto simp: planned_def split: option.splits)
  from forward_planned[OF pl x, of fd] p obtain s :: ndarray and axes n_order k_order where
    "forward fd self x =
       Inr \<lparr>shape = M # t, adtype = result_type (sdtype p) (fd (dtype self)),
            ravel = forward_data (ravel s) n_order k_order (K @ t) axes p (prod_list t) (ravel x)\<rparr>"
    by auto
  then show ?thesis
    using p by (simp add: forward_data_def result_type_complex)
qed

text \<open>
  C8. For an operator planned with \<open>Nd = (16, 16)\<close>, \<open>Kd = (32, 32)\<close> and 100
  samples, \<open>forward\<close> of an array of shape \<open>(16, 16)\<close> returns an array of shape
  \<open>(100,)\<close>; planned with \<open>batch = 4\<close>, \<open>forward\<close> of an array of shape
  \<open>(16, 16, 4)\<close> returns an array of shape \<open>(100, 4)\<close>. The result is complex when
  the transform returns a complex array, as \<open>numpy.fft.fftn\<close> does.
\<close>

theorem shape_contract:
  "(planned self [16, 16] [32, 32] 100 [] \<and> shape x = [16, 16] \<and> length (ravel x) = 256 \<longrightarrow>
      (\<exists>y. forward fd self x = Inr y \<and> shape y = [100] \<and> length (ravel y) = 100 \<and>
            (is_complex (fd (dtype self)) \<longrightarrow> is_complex (adtype y)))) \<and>
   (planned selfb [16, 16] [32, 32] 100 [4] \<and> shape xb = [16, 16, 4] \<and>
    length (ravel xb) = 1024 \<longrightarrow>
      (\<exists>y. forward fd selfb xb = Inr y \<and> shape y = [100, 4] \<and> length (ravel y) = 400 \<and>
            (is_complex (fd (dtype selfb)) \<longrightarrow> is_complex (adtype y))))"
proof (intro conjI impI)
  assume a: "planned self [16, 16] [32, 32] 100 [] \<and> shape x = [16, 16] \<and> length (ravel x) = 256"
  then show "\<exists>y. forward fd self x = Inr y \<and> shape y = [100] \<and> length (ravel y) = 100 \<and>
            (is_complex (fd (dtype self)) \<longrightarrow> is_complex (adtype y))"
    using forward_shape[of self "[16, 16]" "[32, 32]" 100 "[]" x fd] by simp
next
  assume a: "planned selfb [16, 16] [32, 32] 100 [4] \<and> shape xb = [16, 16, 4] \<and>
    length (ravel xb) = 1024"
  then show "\<exists>y. forward fd selfb xb = Inr y \<and> shape y = [100, 4] \<and> length (ravel y) = 400 \<and>
            (is_complex (fd (dtype selfb)) \<longrightarrow> is_complex (adtype y))"
    using forward_shape[of selfb "[16, 16]" "[32, 32]" 100 "[4]" xb fd] by simp
qed

theorem shape_contract_witness:
  "planned demo_op16 [16, 16] [32, 32] 100 [] \<and>
   shape (np_ones [16, 16] Complex64) = [16, 16] \<and>
   length (ravel (np_ones [16, 16] Complex64)) = 256 \<and>
   (\<exists>y. forward id demo_op16 (np_ones [16, 16] Complex64) = Inr y \<and> shape y = [100] \<and>
        length (ravel y) = 100 \<and> is_complex (adtype y)) \<and>
   planned demo_op16b [16, 16] [32, 32] 100 [4] \<and>
   shape (np_ones [16, 16, 4] Complex64) = [16, 16, 4] \<and>
   length (ravel (np_ones [16, 16, 4] Complex64)) = 1024 \<and>
   (\<exists>y. forward id demo_op16b (np_ones [16, 16, 4] Complex64) = Inr y \<and> shape y = [100, 4] \<and>
        length (ravel y) = 400 \<and> is_complex (adtype y))"
proof -
  have s: "shape (np_ones [16, 16] Complex64) = [16, 16]"
    "length (ravel (np_ones [16, 16] Complex64)) = 256"
    "shape (np_ones [16, 16, 4] Complex64) = [16, 16, 4]"
    "length (ravel (np_ones [16, 16, 4] Complex64)) = 1024"
    by (simp_all add: np_ones_def)
  have d: "is_complex (id (dtype demo_op16))" "is_complex (id (dtype demo_op16b))"
    by (simp_all add: demo_op16_def demo_op16b_def plan_keeps_dtype NUFFT_cpu_init_def
        is_complex_def)
  show ?thesis
    using s d demo_op16_planned demo_op16b_planned
      shape_contract[of demo_op16 "np_ones [16, 16] Complex64" id demo_op16b
        "np_ones [16, 16, 4] Complex64"]
    by simp
qed

section \<open>C10: scatter, then gather\<close>

lemma demo_op2b_tables:
  "NdCPUorder demo_op2b = Some (fst (preindex_copy [2] [4]))"
  "KdCPUorder demo_op2b = Some (fst (snd (preindex_copy [2] [4])))"
  "dtype demo_op2b = Complex64"
  by (simp_all add: demo_op2b_def plan_eval demo_helper2_def demo_helper_def demo_st2_def
      NUFFT_cpu_init_def)

lemma demo_op16_tables:
  "NdCPUorder demo_op16 = Some (fst (preindex_copy [16, 16] [32, 32]))"
  "KdCPUorder demo_op16 = Some (fst (snd (preindex_copy [16, 16] [32, 32])))"
  by (simp_all add: demo_op16_def plan_def plan_axes_def plan_batch_def plan_matrices_def Let_def
      demo_helper16_def demo_helper_def demo_st16_def np_ones_def split: prod.splits)

lemma demo_op16_dtype: "dtype demo_op16 = Complex64"
  by (simp add: demo_op16_def plan_keeps_dtype NUFFT_cpu_init_def)

lemma demo_op2b_scatter:
  "ravel xx = [1, 2, 3, 4, 5, 6] \<Longrightarrow>
   xx2k_scatter demo_op2b xx =
     Inr \<lparr>shape = [4, 3], adtype = Complex64, ravel = [0, 0, 0, 1, 2, 3, 4, 5, 6, 0, 0, 0]\<rparr>"
  apply (simp add: demo_op2b_def plan_eval demo_helper2_def demo_helper_def demo_st2_def
      NUFFT_cpu_init_def xx2k_scatter_def np_zeros_def take_idx_def put_idx_def upt_rec)
  apply (simp add: eval_nat_numeral)
  done

lemma demo_op2b_gather:
  "k2xx_gather demo_op2b
     \<lparr>shape = [4, 3], adtype = Complex64, ravel = [0, 0, 0, 1, 2, 3, 4, 5, 6, 0, 0, 0]\<rparr> =
   Inr \<lparr>shape = [2, 3], adtype = Complex64, ravel = [1, 2, 3, 4, 5, 6]\<rparr>"
  apply (simp add: demo_op2b_def plan_eval demo_helper2_def demo_helper_def demo_st2_def
      NUFFT_cpu_init_def k2xx_gather_def np_zeros_def take_idx_def put_idx_def upt_rec)
  apply (simp add: eval_nat_numeral)
  done

text \<open>
  C10 (as stated, refuted). \<open>demo_op2b\<close> is planned with \<open>Nd = (2,)\<close>, \<open>Kd = (4,)\<close>,
  \<open>batch = 3\<close>, the default element type \<open>complex64\<close> and the tables of
  \<open>preindex_copy\<close>. \<open>demo_b128\<close> is a \<open>complex128\<close> array of the planned shape
  \<open>(2, 3)\<close>. The scatter step writes it into a \<open>complex64\<close> buffer and the gather
  step into another one: what comes back is a \<open>complex64\<close> array, not the array
  \<open>demo_b128\<close>. (The values \<open>1, \<dots>, 6\<close> are representable in single precision, so
  they are the values numpy stores; other \<open>complex128\<close> values would be rounded as
  well.)
\<close>

theorem reorder_round_trip_counterexample:
  "NdCPUorder demo_op2b = Some (fst (preindex_copy [2] [4])) \<and>
   KdCPUorder demo_op2b = Some (fst (snd (preindex_copy [2] [4]))) \<and>
   multi_Nd demo_op2b = Some [2, 3] \<and> dtype demo_op2b = Complex64 \<and>
   shape demo_b128 = [2, 3] \<and> adtype demo_b128 = Complex128 \<and>
   xx2k_scatter demo_op2b demo_b128 =
     Inr \<lparr>shape = [4, 3], adtype = Complex64, ravel = [0, 0, 0, 1, 2, 3, 4, 5, 6, 0, 0, 0]\<rparr> \<and>
   k2xx_gather demo_op2b
     \<lparr>shape = [4, 3], adtype = Complex64, ravel = [0, 0, 0, 1, 2, 3, 4, 5, 6, 0, 0, 0]\<rparr> =
     Inr (demo_b128\<lparr>adtype := Complex64\<rparr>) \<and>
   demo_b128\<lparr>adtype := Complex64\<rparr> \<noteq> demo_b128"
proof -
  have m: "multi_Nd demo_op2b = Some [2, 3]"
    by (simp add: demo_op2b_def plan_eval demo_helper2_def demo_helper_def demo_st2_def
        NUFFT_cpu_init_def)
  have s: "xx2k_scatter demo_op2b demo_b128 =
     Inr \<lparr>shape = [4, 3], adtype = Complex64, ravel = [0, 0, 0, 1, 2, 3, 4, 5, 6, 0, 0, 0]\<rparr>"
    by (rule demo_op2b_scatter) (simp add: demo_b128_def)
  show ?thesis
    using m s demo_op2b_tables demo_op2b_gather by (simp add: demo_b128_def)
qed

text \<open>
  C10 (amended). For a planned operator whose reorder tables are those of
  \<open>preindex_copy\<close> for \<open>Kd[i] \<ge> Nd[i]\<close>: the two tables have the same length,
  neither repeats a position, and \<open>NdCPUorder\<close> lists every position of the flattened
  \<open>Nd\<close> buffer. For every array \<open>xx\<close> of the planned shape, the scatter loop of
  \<open>xx2k\<close> returns, and the gather loop of \<open>k2xx\<close> applied to the buffer it filled
  returns an array of the shape of \<open>xx\<close> and of the configured element type; when
  \<open>xx\<close> has the configured element type, that array is \<open>xx\<close> exactly.
\<close>

theorem reorder_round_trip:
  assumes pl: "planned self N K M t"
    and le: "list_all2 (\<le>) N K"
    and tn: "NdCPUorder self = Some (fst (preindex_copy N K))"
    and tk: "KdCPUorder self = Some (fst (snd (preindex_copy N K)))"
    and xx: "shape xx = N @ t" "length (ravel xx) = prod_list (N @ t)"
  shows "length (fst (preindex_copy N K)) = length (fst (snd (preindex_copy N K))) \<and>
         distinct (fst (preindex_copy N K)) \<and> distinct (fst (snd (preindex_copy N K))) \<and>
         set (fst (preindex_copy N K)) = {..<prod_list N} \<and>
         (\<exists>k r. xx2k_scatter self xx = Inr k \<and> k2xx_gather self k = Inr r \<and>
              shape r = shape xx \<and> adtype r = dtype self \<and>
              (adtype xx = dtype self \<longrightarrow> r = xx))"
proof -
  let ?no = "[0..<prod_list N]" and ?ko = "block_index N K"
  have pc: "preindex_copy N K = (?no, ?ko, prod_list N)" by (rule preindex_copy_le[OF le])
  have len: "length ?no = length ?ko"
    using list_all2_lengthD[OF le] by (simp add: length_block_index)
  have dk: "distinct ?ko" by (rule distinct_block_index[OF le])
  have kr: "\<forall>i \<in> set ?ko. i < prod_list K" by (rule block_index_range[OF le])
  have cover: "set ?no = {..<prod_list N}" by (simp add: atLeast0LessThan)
  from pl have at: "length t \<le> 1" "batch self = Some (prod_list t)"
    "multi_Nd self = Some (N @ t)" "multi_Kd self = Some (K @ t)"
    by (auto simp: planned_def)
  let ?b = "prod_list t"
  let ?S = "copy_pairs (index_pairs ?ko ?no ?b [0..<?b]) (ravel xx) (replicate (prod_list (K @ t)) 0)"
  let ?k = "\<lparr>shape = K @ t, adtype = dtype self, ravel = ?S\<rparr>"
  let ?r = "\<lparr>shape = N @ t, adtype = dtype self, ravel = ravel xx\<rparr>"
  have 1: "xx2k_scatter self xx = Inr ?k"
    using xx2k_scatter_planned[where self = self and K = K and t = t and n_order = ?no
        and k_order = ?ko and N = N and xx = xx] at tn tk pc len kr xx by simp
  have 2: "k2xx_gather self ?k =
      Inr \<lparr>shape = N @ t, adtype = dtype self,
           ravel = copy_pairs (index_pairs ?no ?ko ?b [0..<?b]) (ravel ?k)
                     (replicate (prod_list (N @ t)) 0)\<rparr>"
    using k2xx_gather_planned[where self = self and K = K and t = t and n_order = ?no
        and k_order = ?ko and N = N and k = ?k] at tn tk pc len kr by simp
  have 3: "copy_pairs (index_pairs ?no ?ko ?b [0..<?b]) ?S (replicate (prod_list N * ?b) 0) = ravel xx"
    using gather_scatter[where n_order = ?no and k_order = ?ko and n = "prod_list N"
        and k = "prod_list K" and b = ?b and u = "ravel xx"] len dk kr cover xx by simp
  have 4: "k2xx_gather self ?k = Inr ?r"
    using 2 3 by simp
  have 5: "shape ?r = shape xx" "adtype ?r = dtype self" using xx by simp_all
  have 6: "adtype xx = dtype self \<longrightarrow> ?r = xx" using xx by auto
  have "\<exists>k r. xx2k_scatter self xx = Inr k \<and> k2xx_gather self k = Inr r \<and>
              shape r = shape xx \<and> adtype r = dtype self \<and>
              (adtype xx = dtype self \<longrightarrow> r = xx)"
    using 1 4 5 6 by blast
  then show ?thesis using len dk cover by (simp add: pc)
qed

text \<open>
  Instances: a batch of three on \<open>demo_op2b\<close>, with the buffer the scatter loop
  fills, and the geometry \<open>Nd = (16, 16)\<close>, \<open>Kd = (32, 32)\<close>.
\<close>

theorem reorder_round_trip_witness:
  "planned demo_op2b [2] [4] 1 [3] \<and> list_all2 (\<le>) [2] [4::nat] \<and>
   preindex_copy [2] [4] = ([0, 1], [1, 2], 2) \<and>
   adtype demo_b1 = dtype demo_op2b \<and>
   xx2k_scatter demo_op2b demo_b1 =
     Inr \<lparr>shape = [4, 3], adtype = Complex64, ravel = [0, 0, 0, 1, 2, 3, 4, 5, 6, 0, 0, 0]\<rparr> \<and>
   k2xx_gather demo_op2b
     \<lparr>shape = [4, 3], adtype = Complex64, ravel = [0, 0, 0, 1, 2, 3, 4, 5, 6, 0, 0, 0]\<rparr> =
     Inr demo_b1 \<and>
   (\<exists>k r. xx2k_scatter demo_op2b demo_b1 = Inr k \<and> k2xx_gather demo_op2b k = Inr r \<and>
        shape r = shape demo_b1 \<and> adtype r = dtype demo_op2b \<and> r = demo_b1) \<and>
   planned demo_op16 [16, 16] [32, 32] 100 [] \<and> list_all2 (\<le>) [16, 16] [32, 32::nat] \<and>
   adtype (np_ones [16, 16] Complex64) = dtype demo_op16 \<and>
   distinct (fst (snd (preindex_copy [16, 16] [32, 32]))) \<and>
   set (fst (preindex_copy [16, 16] [32, 32])) = {..<prod_list [16, 16]} \<and>
   (\<exists>k r. xx2k_scatter demo_op16 (np_ones [16, 16] Complex64) = Inr k \<and>
        k2xx_gather demo_op16 k = Inr r \<and> r = np_ones [16, 16] Complex64)"
proof -
  have a: "shape demo_b1 = [2] @ [3]" "length (ravel demo_b1) = prod_list ([2] @ [3])"
    by (simp_all add: demo_b1_def)
  have b: "shape (np_ones [16, 16] Complex64) = [16, 16] @ []"
    "length (ravel (np_ones [16, 16] Complex64)) = prod_list ([16, 16] @ [])"
    by (simp_all add: np_ones_def)
  have ta: "adtype demo_b1 = dtype demo_op2b"
    by (simp add: demo_b1_def demo_op2b_tables)
  have tb: "adtype (np_ones [16, 16] Complex64) = dtype demo_op16"
    by (simp add: np_ones_def demo_op16_dtype)
  have le: "list_all2 (\<le>) [2] [4::nat]" by simp
  have pc: "preindex_copy [2] [4] = ([0, 1], [1, 2], 2)"
    by (simp add: preindex_copy_def upt_rec)
  have ev1: "xx2k_scatter demo_op2b demo_b1 =
      Inr \<lparr>shape = [4, 3], adtype = Complex64, ravel = [0, 0, 0, 1, 2, 3, 4, 5, 6, 0, 0, 0]\<rparr>"
    by (rule demo_op2b_scatter) (simp add: demo_b1_def)
  have ev2: "k2xx_gather demo_op2b
       \<lparr>shape = [4, 3], adtype = Complex64, ravel = [0, 0, 0, 1, 2, 3, 4, 5, 6, 0, 0, 0]\<rparr> =
     Inr demo_b1"
    using demo_op2b_gather by (simp add: demo_b1_def)
  have r1: "\<exists>k r. xx2k_scatter demo_op2b demo_b1 = Inr k \<and> k2xx_gather demo_op2b k = Inr r \<and>
        shape r = shape demo_b1 \<and> adtype r = dtype demo_op2b \<and> r = demo_b1"
    using reorder_round_trip[OF demo_op2b_planned le demo_op2b_tables(1,2) a] ta by blast
  have r2: "distinct (fst (snd (preindex_copy [16, 16] [32, 32]))) \<and>
      set (fst (preindex_copy [16, 16] [32, 32])) = {..<prod_list [16, 16]} \<and>
      (\<exists>k r. xx2k_scatter demo_op16 (np_ones [16, 16] Complex64) = Inr k \<and>
        k2xx_gather demo_op16 k = Inr r \<and> r = np_ones [16, 16] Complex64)"
    using reorder_round_trip[OF demo_op16_planned demo16_le demo_op16_tables b] tb by blast
  show ?thesis
    using demo_op2b_planned demo_op16_planned le demo16_le pc ev1 ev2 ta tb r1 r2
    by (intro conjI) (simp_all only:)
qed

section \<open>C1: adjoint duality\<close>

text \<open>
  C1 (as stated, refuted). \<open>demo_op\<close> is planned with one image point, an oversampled
  grid of two points and two samples. For \<open>x = [1]\<close> and \<open>y = [1, 1]\<close> the inner
  product of \<open>forward(x)\<close> with \<open>y\<close> is \<open>3 + \<i>\<close>, that of \<open>x\<close> with
  \<open>adjoint(y)\<close> is \<open>(3 + \<i>)/2\<close>: \<open>adjoint\<close> ends with numpy's inverse transform,
  which divides by the size of the transformed axis. The two differ by half of the
  first, far more than the relative tolerance \<open>1e-4\<close>.
\<close>

theorem adjoint_duality_counterexample:
  "forward id demo_op demo_x = Inr \<lparr>shape = [2], adtype = Complex64, ravel = [1 + \<i>, 2]\<rparr> \<and>
   adjoint id demo_op demo_y = Inr \<lparr>shape = [1], adtype = Complex64, ravel = [(3 - \<i>) / 2]\<rparr> \<and>
   cinner [1 + \<i>, 2] (ravel demo_y) = 3 + \<i> \<and>
   cinner (ravel demo_x) [(3 - \<i>) / 2] = (3 + \<i>) / 2 \<and>
   cmod (cinner [1 + \<i>, 2] (ravel demo_y) - cinner (ravel demo_x) [(3 - \<i>) / 2]) =
     cmod (cinner [1 + \<i>, 2] (ravel demo_y)) / 2 \<and>
   cmod (cinner [1 + \<i>, 2] (ravel demo_y)) / 10000 <
     cmod (cinner [1 + \<i>, 2] (ravel demo_y) - cinner (ravel demo_x) [(3 - \<i>) / 2])"
proof -
  have f: "forward id demo_op demo_x =
           Inr \<lparr>shape = [2], adtype = Complex64, ravel = [1 + \<i>, 2]\<rparr>"
    using demo_forward[of id] by simp
  have a: "adjoint id demo_op demo_y =
           Inr \<lparr>shape = [1], adtype = Complex64, ravel = [(3 - \<i>) / 2]\<rparr>"
    using demo_adjoint[of id] by (simp add: demo_y_def)
  have 1: "cinner [1 + \<i>, 2] (ravel demo_y) = 3 + \<i>"
    by (simp add: demo_y_def)
  have 2: "cinner (ravel demo_x) [(3 - \<i>) / 2] = (3 + \<i>) / 2"
    by (simp add: demo_x_def)
  have e: "(3 + \<i>) - (3 + \<i>) / 2 = (3 + \<i>) / 2" by (simp add: field_simps)
  have 3: "cmod ((3 + \<i>) - (3 + \<i>) / 2) = cmod (3 + \<i>) / 2"
    unfolding e by (simp add: norm_divide)
  have "3 + \<i> \<noteq> 0" by (simp add: complex_eq_iff)
  then have "0 < cmod (3 + \<i>)" by simp
  then have 4: "cmod (3 + \<i>) / 10000 < cmod (3 + \<i>) / 2" by simp
  show ?thesis by (intro conjI f a 1 2) (simp_all only: 1 2 3 4)
qed

text \<open>
  C1 (amended). For every planned operator (without or with a batch axis) whose
  scaling array \<open>sn\<close> is real and whose reorder tables have no repeated index, for every
  \<open>x\<close> of the planned image shape and every \<open>y\<close> of the planned data shape,
  \<open>forward(x)\<close> and \<open>adjoint(y)\<close> return and, over exact arithmetic,
  \<open>\<langle>forward(x), y\<rangle> = c * \<langle>x, adjoint(y)\<rangle>\<close> where \<open>c\<close> is the product of the sizes
  \<open>Kd[ax]\<close> of the transformed axes: \<open>adjoint\<close> is the adjoint of \<open>forward\<close> divided
  by \<open>c\<close>.
\<close>

theorem adjoint_duality_scaled:
  assumes pl: "planned self N K M t"
    and tabs: "NdCPUorder self = Some n_order" "KdCPUorder self = Some k_order"
      "distinct n_order" "distinct k_order"
    and sn: "sn self = Some s" "\<forall>z \<in> set (ravel s). Im z = 0"
    and ax: "ft_axes self = Some axes"
    and x: "shape x = N @ t" "length (ravel x) = prod_list (N @ t)"
    and y: "shape y = M # t" "length (ravel y) = prod_list (M # t)"
  shows "\<exists>fx ay. forward fd self x = Inr fx \<and> adjoint fd self y = Inr ay \<and>
           cinner (ravel fx) (ravel y) =
             of_nat (prod_list (map ((!) K) axes)) * cinner (ravel x) (ravel ay)"
proof -
  from pl obtain s' p axes' n_order' k_order' where a:
    "length t \<le> 1" "length N = length K" "K \<noteq> []"
    "batch self = Some (prod_list t)" "multi_Nd self = Some (N @ t)"
    "multi_Kd self = Some (K @ t)" "multi_M self = Some (M # t)"
    "multi_prodKd self = Some (map Some (prod_list K # t))"
    "sn self = Some s'" "shape s' = N @ map (\<lambda>_. 1) t" "adtype s' = dtype self"
    "length (ravel s') = prod_list N"
    "sp self = Some p" "spH self = Some (getH p)" "nrows p = M" "ncols p = prod_list K"
    "matrix_ok p"
    "ft_axes self = Some axes'" "\<forall>ax \<in> set axes'. ax < length K \<and> K ! ax \<noteq> 0"
    "NdCPUorder self = Some n_order'" "KdCPUorder self = Some k_order'"
    "length n_order' = length k_order'" "\<forall>i \<in> set n_order'. i < prod_list N"
    "\<forall>i \<in> set k_order'. i < prod_list K"
    by (rule planned_attrs)
  have eq: "s' = s" "axes' = axes" "n_order' = n_order" "k_order' = k_order"
    using a tabs sn ax by simp_all
  let ?b = "prod_list t"
  let ?fx = "\<lparr>shape = M # t, adtype = result_type (sdtype p) (fd (dtype self)),
              ravel = forward_data (ravel s) n_order k_order (K @ t) axes p ?b (ravel x)\<rparr>"
  let ?ay = "\<lparr>shape = N @ t, adtype = dtype self,
              ravel = adjoint_data (ravel s) n_order k_order (N @ t) (K @ t) axes p ?b (ravel y)\<rparr>"
  have f: "forward fd self x = Inr ?fx"
    using forward_planned[OF pl x, of fd] a(13) tabs sn ax by auto
  have g: "adjoint fd self y = Inr ?ay"
    using adjoint_planned[OF pl y(1), of fd] a(13) tabs sn ax by auto
  have idx: "map ((!) (K @ t)) axes = map ((!) K) axes"
    using a(19) eq by (intro map_cong refl) (simp add: nth_append)
  have "cinner (forward_data (ravel s) n_order k_order (K @ t) axes p ?b (ravel x)) (ravel y) =
        of_nat (prod_list (map ((!) (K @ t)) axes)) *
        cinner (ravel x)
          (adjoint_data (ravel s) n_order k_order (N @ t) (K @ t) axes p ?b (ravel y))"
  proof (rule forward_adjoint_data[where n = "prod_list N" and k = "prod_list K"])
    show "\<forall>z \<in> set (ravel s). Im z = 0" by (rule sn(2))
    show "length (ravel s) = prod_list N" using a(12) eq by simp
    show "length n_order = length k_order" using a(22) eq by simp
    show "distinct n_order" "distinct k_order" by (rule tabs(3), rule tabs(4))
    show "\<forall>i \<in> set n_order. i < prod_list N" using a(23) eq by simp
    show "\<forall>i \<in> set k_order. i < prod_list K" using a(24) eq by simp
    show "\<forall>ax \<in> set axes. ax < length (K @ t)" using a(19) eq by auto
    show "prod_list (K @ t) = prod_list K * ?b" by simp
    show "prod_list (N @ t) = prod_list N * ?b" by simp
    show "matrix_ok p" by (rule a(17))
    show "ncols p = prod_list K" by (rule a(16))
    show "length (ravel x) = prod_list N * ?b" using x(2) by simp
    show "length (ravel y) = nrows p * ?b" using y(2) a(15) by simp
  qed
  then have "cinner (ravel ?fx) (ravel y) =
             of_nat (prod_list (map ((!) K) axes)) * cinner (ravel x) (ravel ?ay)"
    by (simp add: idx)
  then show ?thesis using f g by blast
qed

theorem adjoint_duality_scaled_witness:
  "planned demo_op [1] [2] 2 [] \<and>
   NdCPUorder demo_op = Some [0] \<and> KdCPUorder demo_op = Some [0] \<and>
   sn demo_op = Some \<lparr>shape = [1], adtype = Complex64, ravel = [1]\<rparr> \<and>
   ft_axes demo_op = Some [0] \<and>
   (\<exists>fx ay. forward id demo_op demo_x = Inr fx \<and> adjoint id demo_op demo_y = Inr ay \<and>
      cinner (ravel fx) (ravel demo_y) = 2 * cinner (ravel demo_x) (ravel ay))"
proof -
  have h: "NdCPUorder demo_op = Some [0]" "KdCPUorder demo_op = Some [0]"
    "sn demo_op = Some \<lparr>shape = [1], adtype = Complex64, ravel = [1]\<rparr>"
    "ft_axes demo_op = Some [0]"
    by (simp_all add: demo_op_val)
  have xy: "shape demo_x = [1] @ []" "length (ravel demo_x) = prod_list ([1] @ [])"
    "shape demo_y = 2 # []" "length (ravel demo_y) = prod_list (2 # [])"
    by (simp_all add: demo_x_def demo_y_def)
  show ?thesis
    using adjoint_duality_scaled[OF demo_planned h(1) h(2) _ _ h(3) _ h(4) xy, of id] demo_planned h
    by simp
qed

end
